theory Spec2Isabelle
  imports Main "HOL-Library.Multiset"
begin

section \<open>Values\<close>

text \<open>
  The storage layer (\<^verbatim>\<open>storage.ts\<close>, \<^verbatim>\<open>dateUtils.ts\<close>) works on dynamically typed
  data: what comes back from \<^verbatim>\<open>chrome.storage\<close>, \<^verbatim>\<open>localStorage\<close> and an imported
  file is \<^verbatim>\<open>any\<close>.  Two value types are used.

  \<^item> \<open>json\<close>: what a storage engine or a JSON text can hold.
  \<^item> \<open>jsval\<close>: a run-time value, which can also be \<^verbatim>\<open>undefined\<close>, a non-finite number
    or a \<^verbatim>\<open>Date\<close> object.

  Numbers are the integral doubles (\<open>Fin n\<close> is the double whose value is \<open>n\<close>) and the
  three non-finite ones; fractional numbers are outside the model.  A \<^verbatim>\<open>Date\<close> object is
  its time value in milliseconds, \<open>None\<close> for an Invalid Date.  An object is the list of
  its own properties in insertion order.
\<close>

datatype jsnum = NaN | PosInf | NegInf | Fin int

datatype json =
    JNull
  | JBool bool
  | JNum int
  | JStr string
  | JArr "json list"
  | JObj "(string \<times> json) list"

datatype jsval =
    Undefined
  | Null
  | Bool bool
  | Num jsnum
  | Str string
  | DateObj "int option"
  | Arr "jsval list"
  | Obj "(string \<times> jsval) list"

type_synonym obj = "(string \<times> jsval) list"

datatype error = InvalidFormat | TypeError | SyntaxError | StorageError | ReadError

text \<open>
  Built-in behaviour of the JavaScript engine that the repository calls but does not
  define is a parameter of the model:
  \<^item> \<open>Date_parse s\<close>: the time value of \<^verbatim>\<open>new Date(s)\<close> for a string, \<open>None\<close> when the
    result is an Invalid Date;
  \<^item> \<open>toISOString t\<close>: \<^verbatim>\<open>Date.prototype.toISOString\<close> of the valid date with time value \<open>t\<close>;
  \<^item> \<open>Object_toString v\<close>: \<^verbatim>\<open>v.toString()\<close> of an array or plain object (it can throw);
  \<^item> \<open>ToNumber_other v\<close>: the abstract operation ToNumber on a string, array or plain
    object (it can throw);
  \<^item> \<open>round_double n\<close>: the double nearest to an integer of magnitude above \<open>2^53\<close>;
  \<^item> \<open>engine_message e\<close>: the \<^verbatim>\<open>message\<close> of an error thrown by the engine.
\<close>

record platform =
  Date_parse :: "string \<Rightarrow> int option"
  toISOString :: "int \<Rightarrow> string"
  Object_toString :: "jsval \<Rightarrow> error + string"
  ToNumber_other :: "jsval \<Rightarrow> error + jsnum"
  round_double :: "int \<Rightarrow> jsnum"
  engine_message :: "error \<Rightarrow> string"

section \<open>Date utilities (dateUtils.ts)\<close>

text \<open>\<^verbatim>\<open>new Date(timestamp)\<close> on a finite integral number: the time value is kept when it
  lies within 8.64e15 ms of the epoch, otherwise the date is invalid.\<close>

definition new_Date :: "int \<Rightarrow> int option" where
  "new_Date t = (if \<bar>t\<bar> \<le> 8640000000000000 then Some t else None)"

text \<open>\<^verbatim>\<open>String.prototype.trim\<close>, on the ASCII white space and line terminators.\<close>

definition js_whitespace :: "char \<Rightarrow> bool" where
  "js_whitespace c =
     (c = CHR 0x20 \<or> c = CHR 0x09 \<or> c = CHR 0x0A \<or> c = CHR 0x0B \<or> c = CHR 0x0C \<or> c = CHR 0x0D)"

definition js_trim :: "string \<Rightarrow> string" where
  "js_trim s = rev (dropWhile js_whitespace (rev (dropWhile js_whitespace s)))"

text \<open>\<^verbatim>\<open>getValidDate(dateInput): Date | null\<close>.  The result is the time value of the
  valid date returned, \<open>None\<close> for \<^verbatim>\<open>null\<close>.\<close>

fun getValidDate :: "platform \<Rightarrow> jsval \<Rightarrow> int option" where
  "getValidDate P Undefined = None"
| "getValidDate P Null = None"
| "getValidDate P (DateObj d) = d"
| "getValidDate P (Str s) = (if js_trim s = [] then None else Date_parse P s)"
| "getValidDate P (Num n) =
     (case n of
        Fin k \<Rightarrow>
          if k < 0 then None
          else new_Date (if k < 10000000000 then k * 1000 else k)
      | _ \<Rightarrow> None)"
| "getValidDate P (Bool b) = None"
| "getValidDate P (Arr xs) = None"
| "getValidDate P (Obj ps) = None"

text \<open>\<^verbatim>\<open>getValidDateWithFallback\<close>: \<open>now\<close> is the reading of the clock, \<^verbatim>\<open>new Date()\<close>.\<close>

definition getValidDateWithFallback :: "platform \<Rightarrow> int \<Rightarrow> jsval \<Rightarrow> int" where
  "getValidDateWithFallback P now v = (case getValidDate P v of Some t \<Rightarrow> t | None \<Rightarrow> now)"

definition dateToISOString :: "platform \<Rightarrow> int \<Rightarrow> jsval \<Rightarrow> string" where
  "dateToISOString P now v = toISOString P (getValidDateWithFallback P now v)"

text \<open>
  \<^verbatim>\<open>restoreDateFromStorage(storedDate: any): Date\<close>.  For an array or a plain object no
  property is callable, so the \<^verbatim>\<open>getTime\<close> test is false and a call of
  \<^verbatim>\<open>storedDate.toISOString()\<close> throws inside its \<^verbatim>\<open>try\<close>; what is left is the attempt
  on \<^verbatim>\<open>storedDate.toString()\<close>.
\<close>

definition restore_object :: "platform \<Rightarrow> int \<Rightarrow> jsval \<Rightarrow> int" where
  "restore_object P now v =
     (case Object_toString P v of
        Inl e \<Rightarrow> now
      | Inr s \<Rightarrow> (case getValidDate P (Str s) of Some t \<Rightarrow> t | None \<Rightarrow> now))"

fun restoreDateFromStorage :: "platform \<Rightarrow> int \<Rightarrow> jsval \<Rightarrow> int" where
  "restoreDateFromStorage P now Undefined = now"
| "restoreDateFromStorage P now Null = now"
| "restoreDateFromStorage P now (DateObj d) = (case d of None \<Rightarrow> now | Some t \<Rightarrow> t)"
| "restoreDateFromStorage P now (Str s) =
     (case getValidDate P (Str s) of Some t \<Rightarrow> t | None \<Rightarrow> now)"
| "restoreDateFromStorage P now (Arr xs) = restore_object P now (Arr xs)"
| "restoreDateFromStorage P now (Obj ps) = restore_object P now (Obj ps)"
| "restoreDateFromStorage P now (Num n) =
     (case getValidDate P (Num n) of Some t \<Rightarrow> t | None \<Rightarrow> now)"
| "restoreDateFromStorage P now (Bool b) = now"

section \<open>JavaScript primitives used by the storage layer\<close>

text \<open>Truthiness, as tested by \<^verbatim>\<open>!x\<close>, \<^verbatim>\<open>x || y\<close> and \<^verbatim>\<open>x ? y : z\<close>.\<close>

fun truthy :: "jsval \<Rightarrow> bool" where
  "truthy Undefined = False"
| "truthy Null = False"
| "truthy (Bool b) = b"
| "truthy (Num n) = (n \<noteq> NaN \<and> n \<noteq> Fin 0)"
| "truthy (Str s) = (s \<noteq> [])"
| "truthy (DateObj d) = True"
| "truthy (Arr xs) = True"
| "truthy (Obj ps) = True"

text \<open>
  Strict equality \<^verbatim>\<open>===\<close>.  Two arrays, objects or dates are equal only when they are
  the same object; the operands the storage layer compares come from separate
  deserialisations, so they never are.
\<close>

fun strict_eq :: "jsval \<Rightarrow> jsval \<Rightarrow> bool" where
  "strict_eq Undefined b = (b = Undefined)"
| "strict_eq Null b = (b = Null)"
| "strict_eq (Bool a) b = (b = Bool a)"
| "strict_eq (Num a) b = (a \<noteq> NaN \<and> b = Num a)"
| "strict_eq (Str a) b = (b = Str a)"
| "strict_eq (DateObj d) b = False"
| "strict_eq (Arr xs) b = False"
| "strict_eq (Obj ps) b = False"

text \<open>Decimal rendering of an array index or a number in a template string.\<close>

fun dec :: "nat \<Rightarrow> string" where
  "dec n = (if n < 10 then [''0123456789'' ! n] else dec (n div 10) @ [''0123456789'' ! (n mod 10)])"

declare dec.simps [simp del]

definition dec_int :: "int \<Rightarrow> string" where
  "dec_int i = (if i < 0 then CHR ''-'' # dec (nat (- i)) else dec (nat i))"

text \<open>
  The own enumerable properties of a value, as copied by an object spread
  \<^verbatim>\<open>{...v}\<close>: those of an object, the indexed elements of an array, the indexed
  characters of a string, none for the other values.
\<close>

fun own_props :: "jsval \<Rightarrow> obj" where
  "own_props (Obj ps) = ps"
| "own_props (Arr xs) = zip (map dec [0..<length xs]) xs"
| "own_props (Str s) = zip (map dec [0..<length s]) (map (\<lambda>c. Str [c]) s)"
| "own_props _ = []"

text \<open>Reading a property of an object: \<^verbatim>\<open>undefined\<close> when it is absent.\<close>

definition field :: "obj \<Rightarrow> string \<Rightarrow> jsval" where
  "field ps k = (case map_of ps k of None \<Rightarrow> Undefined | Some v \<Rightarrow> v)"

text \<open>
  Reading a property of any value: a \<^verbatim>\<open>TypeError\<close> on \<^verbatim>\<open>null\<close> and \<^verbatim>\<open>undefined\<close>.
  The names the storage layer reads are none of the built-in properties of arrays and
  strings.
\<close>

fun get_prop :: "jsval \<Rightarrow> string \<Rightarrow> error + jsval" where
  "get_prop Undefined k = Inl TypeError"
| "get_prop Null k = Inl TypeError"
| "get_prop v k = Inr (field (own_props v) k)"

text \<open>Writing a property in an object literal: an existing property keeps its place, a
  new one goes last.\<close>

fun set_prop :: "string \<Rightarrow> 'v \<Rightarrow> (string \<times> 'v) list \<Rightarrow> (string \<times> 'v) list" where
  "set_prop k v [] = [(k, v)]"
| "set_prop k v (p # ps) = (if fst p = k then (k, v) # ps else p # set_prop k v ps)"

text \<open>\<^verbatim>\<open>Array.prototype.map\<close> and \<^verbatim>\<open>filter\<close> with a callback that can throw.\<close>

fun map_err :: "('a \<Rightarrow> error + 'b) \<Rightarrow> 'a list \<Rightarrow> error + 'b list" where
  "map_err f [] = Inr []"
| "map_err f (x # xs) =
     (case f x of
        Inl e \<Rightarrow> Inl e
      | Inr y \<Rightarrow> (case map_err f xs of Inl e \<Rightarrow> Inl e | Inr ys \<Rightarrow> Inr (y # ys)))"

fun filter_err :: "('a \<Rightarrow> error + bool) \<Rightarrow> 'a list \<Rightarrow> error + 'a list" where
  "filter_err f [] = Inr []"
| "filter_err f (x # xs) =
     (case f x of
        Inl e \<Rightarrow> Inl e
      | Inr b \<Rightarrow>
          (case filter_err f xs of
             Inl e \<Rightarrow> Inl e
           | Inr ys \<Rightarrow> Inr (if b then x # ys else ys)))"

text \<open>\<^verbatim>\<open>Array.prototype.findIndex\<close>, scanning from index \<open>i\<close> on; \<open>None\<close> stands for
  \<open>-1\<close>.\<close>

fun find_index_from :: "nat \<Rightarrow> ('a \<Rightarrow> bool) \<Rightarrow> 'a list \<Rightarrow> nat option" where
  "find_index_from i f [] = None"
| "find_index_from i f (x # xs) = (if f x then Some i else find_index_from (Suc i) f xs)"

definition find_index :: "('a \<Rightarrow> bool) \<Rightarrow> 'a list \<Rightarrow> nat option" where
  "find_index f xs = find_index_from 0 f xs"

text \<open>ToNumber, \<^verbatim>\<open>Math.max\<close> and \<^verbatim>\<open>+\<close> on numbers.  A sum of integers of magnitude up
  to \<open>2^53\<close> is exact.\<close>

fun to_number :: "platform \<Rightarrow> jsval \<Rightarrow> error + jsnum" where
  "to_number P Undefined = Inr NaN"
| "to_number P Null = Inr (Fin 0)"
| "to_number P (Bool b) = Inr (Fin (if b then 1 else 0))"
| "to_number P (Num n) = Inr n"
| "to_number P (DateObj d) = Inr (case d of None \<Rightarrow> NaN | Some t \<Rightarrow> Fin t)"
| "to_number P v = ToNumber_other P v"

fun num_max :: "jsnum \<Rightarrow> jsnum \<Rightarrow> jsnum" where
  "num_max NaN b = NaN"
| "num_max a NaN = NaN"
| "num_max PosInf b = PosInf"
| "num_max a PosInf = PosInf"
| "num_max NegInf b = b"
| "num_max a NegInf = a"
| "num_max (Fin x) (Fin y) = Fin (max x y)"

definition Math_max :: "jsnum list \<Rightarrow> jsnum" where
  "Math_max ns = foldl num_max NegInf ns"

fun num_add :: "platform \<Rightarrow> jsnum \<Rightarrow> jsnum \<Rightarrow> jsnum" where
  "num_add P NaN b = NaN"
| "num_add P a NaN = NaN"
| "num_add P PosInf NegInf = NaN"
| "num_add P NegInf PosInf = NaN"
| "num_add P PosInf b = PosInf"
| "num_add P a PosInf = PosInf"
| "num_add P NegInf b = NegInf"
| "num_add P a NegInf = NegInf"
| "num_add P (Fin x) (Fin y) =
     (if \<bar>x + y\<bar> \<le> 9007199254740992 then Fin (x + y) else round_double P (x + y))"

section \<open>The serialisation boundary of the storage engines\<close>

text \<open>\<^verbatim>\<open>JSON.parse\<close> of a text, given the JSON value the text denotes.\<close>

primrec of_json :: "json \<Rightarrow> jsval" where
  "of_json JNull = Null"
| "of_json (JBool b) = Bool b"
| "of_json (JNum n) = Num (Fin n)"
| "of_json (JStr s) = Str s"
| "of_json (JArr xs) = Arr (map of_json xs)"
| "of_json (JObj ps) = Obj (map (map_prod id of_json) ps)"

text \<open>
  What a storage engine keeps of a value: \<^verbatim>\<open>undefined\<close> and non-finite numbers become
  \<^verbatim>\<open>null\<close>, a property whose value is \<^verbatim>\<open>undefined\<close> is dropped.  The two engines differ
  on a \<^verbatim>\<open>Date\<close> object (argument \<open>D\<close>): \<^verbatim>\<open>JSON.stringify\<close> writes its ISO string
  (\<^verbatim>\<open>null\<close> if invalid), \<^verbatim>\<open>chrome.storage\<close> keeps an empty object, which is why
  \<^verbatim>\<open>savePrompts\<close> converts the timestamps first.
\<close>

primrec to_json :: "(int option \<Rightarrow> json) \<Rightarrow> jsval \<Rightarrow> json" where
  "to_json D Undefined = JNull"
| "to_json D Null = JNull"
| "to_json D (Bool b) = JBool b"
| "to_json D (Num n) = (case n of Fin k \<Rightarrow> JNum k | _ \<Rightarrow> JNull)"
| "to_json D (Str s) = JStr s"
| "to_json D (DateObj d) = D d"
| "to_json D (Arr xs) = JArr (map (to_json D) xs)"
| "to_json D (Obj ps) =
     JObj (filter (\<lambda>p. map_of ps (fst p) \<noteq> Some Undefined) (map (map_prod id (to_json D)) ps))"

definition json_date :: "platform \<Rightarrow> int option \<Rightarrow> json" where
  "json_date P d = (case d of None \<Rightarrow> JNull | Some t \<Rightarrow> JStr (toISOString P t))"

definition chrome_date :: "int option \<Rightarrow> json" where
  "chrome_date d = JObj []"

section \<open>The two storage engines\<close>

text \<open>
  The item under the key \<^verbatim>\<open>prompt_templates\<close> in each engine.  In \<^verbatim>\<open>localStorage\<close> it
  is a text: absent or empty (\<open>NoItem\<close>), not parseable by \<^verbatim>\<open>JSON.parse\<close> (\<open>BadText\<close>),
  or the text of a JSON value.  \<open>chrome_present\<close> is the test
  \<^verbatim>\<open>typeof chrome !== "undefined" && chrome.storage\<close>; \<open>chrome_fails\<close> and \<open>local_fails\<close>
  say that the calls of the engine throw.
\<close>

datatype local_entry = NoItem | BadText | Text json

record world =
  chrome_present :: bool
  chrome_fails :: bool
  chrome_item :: "json option"
  local_fails :: bool
  local_item :: local_entry

definition chrome_get :: "world \<Rightarrow> error + jsval" where
  "chrome_get w =
     (if chrome_fails w then Inl StorageError
      else Inr (case chrome_item w of None \<Rightarrow> Undefined | Some j \<Rightarrow> of_json j))"

definition chrome_set :: "world \<Rightarrow> jsval \<Rightarrow> error + world" where
  "chrome_set w v =
     (if chrome_fails w then Inl StorageError
      else Inr (w\<lparr>chrome_item := Some (to_json chrome_date v)\<rparr>))"

definition local_getItem :: "world \<Rightarrow> error + local_entry" where
  "local_getItem w = (if local_fails w then Inl StorageError else Inr (local_item w))"

definition local_setItem :: "platform \<Rightarrow> world \<Rightarrow> jsval \<Rightarrow> error + world" where
  "local_setItem P w v =
     (if local_fails w then Inl StorageError
      else Inr (w\<lparr>local_item := Text (to_json (json_date P) v)\<rparr>))"

text \<open>\<^verbatim>\<open>stored ? JSON.parse(stored) : []\<close>\<close>

fun parse_stored :: "local_entry \<Rightarrow> error + jsval" where
  "parse_stored NoItem = Inr (Arr [])"
| "parse_stored BadText = Inl SyntaxError"
| "parse_stored (Text j) = Inr (of_json j)"

section \<open>The record store (storage.ts)\<close>

text \<open>
  Each operation takes the platform \<open>P\<close>, the reading \<open>now\<close> of the clock during the
  operation (every \<^verbatim>\<open>new Date()\<close> of one operation reads the same instant) and the world
  \<open>w\<close>; it returns the error thrown or its result.
\<close>

text \<open>The callback of \<^verbatim>\<open>rawPrompts.map\<close> in \<^verbatim>\<open>getPrompts\<close>.\<close>

definition restore_record :: "platform \<Rightarrow> int \<Rightarrow> jsval \<Rightarrow> error + obj" where
  "restore_record P now prompt =
     (case get_prop prompt ''createdAt'' of
        Inl e \<Rightarrow> Inl e
      | Inr c \<Rightarrow>
          (case get_prop prompt ''updatedAt'' of
             Inl e \<Rightarrow> Inl e
           | Inr u \<Rightarrow>
               Inr (set_prop ''updatedAt'' (DateObj (Some (restoreDateFromStorage P now u)))
                     (set_prop ''createdAt'' (DateObj (Some (restoreDateFromStorage P now c)))
                       (own_props prompt)))))"

text \<open>\<^verbatim>\<open>rawPrompts.map(...)\<close>: only an array has \<^verbatim>\<open>map\<close>.\<close>

definition restore_all :: "platform \<Rightarrow> int \<Rightarrow> jsval \<Rightarrow> error + obj list" where
  "restore_all P now raw =
     (case raw of Arr xs \<Rightarrow> map_err (restore_record P now) xs | _ \<Rightarrow> Inl TypeError)"

text \<open>The \<^verbatim>\<open>try\<close> block of \<^verbatim>\<open>getPrompts\<close>, its \<^verbatim>\<open>catch\<close> block, and the whole.\<close>

definition getPrompts_try :: "platform \<Rightarrow> int \<Rightarrow> world \<Rightarrow> error + obj list" where
  "getPrompts_try P now w =
     (case (if chrome_present w
            then (case chrome_get w of
                    Inl e \<Rightarrow> Inl e
                  | Inr v \<Rightarrow> Inr (if truthy v then v else Arr []))
            else (case local_getItem w of Inl e \<Rightarrow> Inl e | Inr s \<Rightarrow> parse_stored s)) of
        Inl e \<Rightarrow> Inl e
      | Inr raw \<Rightarrow> restore_all P now raw)"

definition getPrompts_catch :: "platform \<Rightarrow> int \<Rightarrow> world \<Rightarrow> error + obj list" where
  "getPrompts_catch P now w =
     (case local_getItem w of
        Inl e \<Rightarrow> Inl e
      | Inr s \<Rightarrow> (case parse_stored s of Inl e \<Rightarrow> Inl e | Inr raw \<Rightarrow> restore_all P now raw))"

definition getPrompts :: "platform \<Rightarrow> int \<Rightarrow> world \<Rightarrow> error + obj list" where
  "getPrompts P now w =
     (case getPrompts_try P now w of Inr ps \<Rightarrow> Inr ps | Inl e \<Rightarrow> getPrompts_catch P now w)"

text \<open>The callback of \<^verbatim>\<open>prompts.map\<close> in \<^verbatim>\<open>savePrompts\<close>, and \<^verbatim>\<open>savePrompts\<close>.\<close>

definition serialize_record :: "platform \<Rightarrow> int \<Rightarrow> obj \<Rightarrow> obj" where
  "serialize_record P now prompt =
     set_prop ''updatedAt'' (Str (dateToISOString P now (field prompt ''updatedAt'')))
       (set_prop ''createdAt'' (Str (dateToISOString P now (field prompt ''createdAt'')))
         prompt)"

definition serializedPrompts :: "platform \<Rightarrow> int \<Rightarrow> obj list \<Rightarrow> jsval" where
  "serializedPrompts P now prompts = Arr (map (\<lambda>p. Obj (serialize_record P now p)) prompts)"

definition savePrompts :: "platform \<Rightarrow> int \<Rightarrow> world \<Rightarrow> obj list \<Rightarrow> error + world" where
  "savePrompts P now w prompts =
     (case (if chrome_present w
            then chrome_set w (serializedPrompts P now prompts)
            else local_setItem P w (serializedPrompts P now prompts)) of
        Inr w' \<Rightarrow> Inr w'
      | Inl e \<Rightarrow> local_setItem P w (serializedPrompts P now prompts))"

definition addPrompt :: "platform \<Rightarrow> int \<Rightarrow> world \<Rightarrow> obj \<Rightarrow> error + world" where
  "addPrompt P now w prompt =
     (case getPrompts P now w of
        Inl e \<Rightarrow> Inl e
      | Inr prompts \<Rightarrow> savePrompts P now w (prompts @ [prompt]))"

definition updatePrompt :: "platform \<Rightarrow> int \<Rightarrow> world \<Rightarrow> obj \<Rightarrow> error + world" where
  "updatePrompt P now w updatedPrompt =
     (case getPrompts P now w of
        Inl e \<Rightarrow> Inl e
      | Inr prompts \<Rightarrow>
          (case find_index (\<lambda>p. strict_eq (field p ''id'') (field updatedPrompt ''id'')) prompts of
             None \<Rightarrow> Inr w
           | Some i \<Rightarrow> savePrompts P now w (prompts[i := updatedPrompt])))"

definition deletePrompt :: "platform \<Rightarrow> int \<Rightarrow> world \<Rightarrow> string \<Rightarrow> error + world" where
  "deletePrompt P now w promptId =
     (case getPrompts P now w of
        Inl e \<Rightarrow> Inl e
      | Inr prompts \<Rightarrow>
          savePrompts P now w
            (filter (\<lambda>p. \<not> strict_eq (field p ''id'') (Str promptId)) prompts))"

definition with_order :: "obj list \<Rightarrow> obj list" where
  "with_order prompts =
     map (\<lambda>(index, prompt). set_prop ''order'' (Num (Fin (int index))) prompt)
       (enumerate 0 prompts)"

definition reorderPrompts :: "platform \<Rightarrow> int \<Rightarrow> world \<Rightarrow> obj list \<Rightarrow> error + world" where
  "reorderPrompts P now w reorderedPrompts = savePrompts P now w (with_order reorderedPrompts)"

subsection \<open>Import\<close>

text \<open>The file handed to \<^verbatim>\<open>importPrompts\<close>: reading it fails, its text is not JSON, or
  its text is that of a JSON value.\<close>

datatype import_file = Unreadable | NotJson | Document json

record import_result =
  success :: bool
  imported :: nat
  message :: string

text \<open>The callback of \<^verbatim>\<open>importData.prompts.filter\<close>.\<close>

definition is_new_prompt :: "obj list \<Rightarrow> jsval \<Rightarrow> error + bool" where
  "is_new_prompt existingPrompts prompt =
     (case get_prop prompt ''id'' of
        Inl e \<Rightarrow> Inl e
      | Inr i \<Rightarrow>
          (case get_prop prompt ''title'' of
             Inl e \<Rightarrow> Inl e
           | Inr t \<Rightarrow>
               (case get_prop prompt ''content'' of
                  Inl e \<Rightarrow> Inl e
                | Inr c \<Rightarrow>
                    if \<not> truthy i \<or> \<not> truthy t \<or> \<not> truthy c then Inr False
                    else Inr (\<not> list_ex (\<lambda>existing.
                                   strict_eq (field existing ''title'') t
                                   \<and> strict_eq (field existing ''content'') c)
                                 existingPrompts))))"

text \<open>\<^verbatim>\<open>existingPrompts.length > 0 ? Math.max(...existingPrompts.map((p) => p.order)) : -1\<close>\<close>

definition max_order :: "platform \<Rightarrow> obj list \<Rightarrow> error + jsnum" where
  "max_order P existingPrompts =
     (if existingPrompts \<noteq> []
      then (case map_err (\<lambda>p. to_number P (field p ''order'')) existingPrompts of
              Inl e \<Rightarrow> Inl e
            | Inr ns \<Rightarrow> Inr (Math_max ns))
      else Inr (Fin (- 1)))"

text \<open>The callback of \<^verbatim>\<open>newPrompts.map\<close>; the properties are written in the order of the
  object literal.\<close>

definition prepare_import :: "platform \<Rightarrow> int \<Rightarrow> jsnum \<Rightarrow> nat \<Rightarrow> jsval \<Rightarrow> obj" where
  "prepare_import P now maxOrder index prompt =
     (let ps = own_props prompt in
      set_prop ''tags'' (case field ps ''tags'' of Arr ts \<Rightarrow> Arr ts | _ \<Rightarrow> Arr [])
        (set_prop ''updatedAt''
            (DateObj (Some (getValidDateWithFallback P now (field ps ''updatedAt''))))
          (set_prop ''createdAt''
              (DateObj (Some (getValidDateWithFallback P now (field ps ''createdAt''))))
            (set_prop ''order''
                (Num (num_add P (num_add P maxOrder (Fin 1)) (Fin (int index))))
              (set_prop ''id''
                  (if truthy (field ps ''id'') then field ps ''id''
                   else Str (''imported-'' @ dec_int now @ ''-'' @ dec index))
                ps)))))"

definition promptsToAdd :: "platform \<Rightarrow> int \<Rightarrow> jsnum \<Rightarrow> jsval list \<Rightarrow> obj list" where
  "promptsToAdd P now maxOrder newPrompts =
     map (\<lambda>(index, prompt). prepare_import P now maxOrder index prompt) (enumerate 0 newPrompts)"

text \<open>The \<^verbatim>\<open>try\<close> block of \<^verbatim>\<open>importPrompts\<close>: the world after it and the number of prompts
  imported, or the error thrown.  \<^verbatim>\<open>savePrompts\<close> is its only write and its last step.\<close>

definition import_try :: "platform \<Rightarrow> int \<Rightarrow> world \<Rightarrow> import_file \<Rightarrow> error + (world \<times> nat)" where
  "import_try P now w f =
     (case f of
        Unreadable \<Rightarrow> Inl ReadError
      | NotJson \<Rightarrow> Inl SyntaxError
      | Document d \<Rightarrow>
          (case get_prop (of_json d) ''prompts'' of
             Inl e \<Rightarrow> Inl e
           | Inr ps \<Rightarrow>
               (case ps of
                  Arr candidates \<Rightarrow>
                    (case getPrompts P now w of
                       Inl e \<Rightarrow> Inl e
                     | Inr existingPrompts \<Rightarrow>
                         (case filter_err (is_new_prompt existingPrompts) candidates of
                            Inl e \<Rightarrow> Inl e
                          | Inr newPrompts \<Rightarrow>
                              if newPrompts \<noteq> [] then
                                (case max_order P existingPrompts of
                                   Inl e \<Rightarrow> Inl e
                                 | Inr maxOrder \<Rightarrow>
                                     (case savePrompts P now w
                                             (existingPrompts @ promptsToAdd P now maxOrder newPrompts) of
                                        Inl e \<Rightarrow> Inl e
                                      | Inr w' \<Rightarrow> Inr (w', length newPrompts)))
                              else Inr (w, 0)))
                | _ \<Rightarrow> Inl InvalidFormat)))"

definition error_message :: "platform \<Rightarrow> error \<Rightarrow> string" where
  "error_message P e =
     (if e = InvalidFormat then ''Invalid file format: missing prompts array''
      else engine_message P e)"

definition importPrompts :: "platform \<Rightarrow> int \<Rightarrow> world \<Rightarrow> import_file \<Rightarrow> world \<times> import_result" where
  "importPrompts P now w f =
     (case import_try P now w f of
        Inr (w', importedCount) \<Rightarrow>
          (w', \<lparr>success = True, imported = importedCount,
                message =
                  (if importedCount > 0
                   then ''Successfully imported '' @ dec importedCount @ '' prompt''
                        @ (if importedCount > 1 then ''s'' else [])
                   else ''No new prompts to import (duplicates were skipped)'')\<rparr>)
      | Inl e \<Rightarrow> (w, \<lparr>success = False, imported = 0, message = error_message P e\<rparr>))"

section \<open>The controller's load (PromptSidebar.tsx)\<close>

text \<open>
  \<^verbatim>\<open>loadedPrompts.sort((a, b) => a.order - b.order)\<close>.  \<open>order_after P a b\<close> is the test
  \<^verbatim>\<open>a.order - b.order > 0\<close>.  Where the comparator is a consistent ordering every engine
  returns the stable sorted sequence; the model is insertion sort.
\<close>

fun diff_positive :: "jsnum \<Rightarrow> jsnum \<Rightarrow> bool" where
  "diff_positive NaN b = False"
| "diff_positive a NaN = False"
| "diff_positive PosInf PosInf = False"
| "diff_positive PosInf b = True"
| "diff_positive a PosInf = False"
| "diff_positive NegInf b = False"
| "diff_positive a NegInf = True"
| "diff_positive (Fin x) (Fin y) = (y < x)"

definition order_after :: "platform \<Rightarrow> obj \<Rightarrow> obj \<Rightarrow> error + bool" where
  "order_after P a b =
     (case to_number P (field a ''order'') of
        Inl e \<Rightarrow> Inl e
      | Inr x \<Rightarrow>
          (case to_number P (field b ''order'') of
             Inl e \<Rightarrow> Inl e
           | Inr y \<Rightarrow> Inr (diff_positive x y)))"

fun insert_by_order :: "platform \<Rightarrow> obj \<Rightarrow> obj list \<Rightarrow> error + obj list" where
  "insert_by_order P a [] = Inr [a]"
| "insert_by_order P a (b # bs) =
     (case order_after P a b of
        Inl e \<Rightarrow> Inl e
      | Inr after \<Rightarrow>
          if after
          then (case insert_by_order P a bs of Inl e \<Rightarrow> Inl e | Inr cs \<Rightarrow> Inr (b # cs))
          else Inr (a # b # bs))"

fun sort_by_order :: "platform \<Rightarrow> obj list \<Rightarrow> error + obj list" where
  "sort_by_order P [] = Inr []"
| "sort_by_order P (a # as) =
     (case sort_by_order P as of Inl e \<Rightarrow> Inl e | Inr bs \<Rightarrow> insert_by_order P a bs)"

definition loadPrompts :: "platform \<Rightarrow> int \<Rightarrow> world \<Rightarrow> error + obj list" where
  "loadPrompts P now w =
     (case getPrompts P now w of Inl e \<Rightarrow> Inl e | Inr loadedPrompts \<Rightarrow> sort_by_order P loadedPrompts)"

section \<open>Sequences of store operations\<close>

text \<open>An operation that throws writes nothing: \<^verbatim>\<open>savePrompts\<close> is the last step of each.\<close>

datatype store_op =
    Create obj
  | Update obj
  | Delete string
  | Reorder "obj list"
  | Import import_file

definition world_after :: "world \<Rightarrow> error + world \<Rightarrow> world" where
  "world_after w r = (case r of Inl e \<Rightarrow> w | Inr w' \<Rightarrow> w')"

fun apply_op :: "platform \<Rightarrow> world \<Rightarrow> int \<times> store_op \<Rightarrow> world" where
  "apply_op P w (now, Create p) = world_after w (addPrompt P now w p)"
| "apply_op P w (now, Update p) = world_after w (updatePrompt P now w p)"
| "apply_op P w (now, Delete i) = world_after w (deletePrompt P now w i)"
| "apply_op P w (now, Reorder ps) = world_after w (reorderPrompts P now w ps)"
| "apply_op P w (now, Import f) = fst (importPrompts P now w f)"

definition run_ops :: "platform \<Rightarrow> world \<Rightarrow> (int \<times> store_op) list \<Rightarrow> world" where
  "run_ops P w ops = foldl (apply_op P) w ops"

section \<open>Predicates of the specification\<close>

text \<open>A run-time value that a storage engine returns unchanged.\<close>

primrec is_json :: "jsval \<Rightarrow> bool" where
  "is_json Undefined = False"
| "is_json Null = True"
| "is_json (Bool b) = True"
| "is_json (Num n) = (case n of Fin k \<Rightarrow> True | _ \<Rightarrow> False)"
| "is_json (Str s) = True"
| "is_json (DateObj d) = False"
| "is_json (Arr xs) = list_all (\<lambda>b. b) (map is_json xs)"
| "is_json (Obj ps) = list_all snd (map (map_prod id is_json) ps)"

definition is_valid_date :: "jsval \<Rightarrow> bool" where
  "is_valid_date v = (case v of DateObj (Some t) \<Rightarrow> True | _ \<Rightarrow> False)"

text \<open>
  The shape of a record as \<^verbatim>\<open>getPrompts\<close> returns it and as the \<^verbatim>\<open>Prompt\<close> interface
  types it: the two timestamps are valid \<^verbatim>\<open>Date\<close> objects, every other property is a plain
  JSON value.
\<close>

definition record_shape :: "obj \<Rightarrow> bool" where
  "record_shape p =
     (is_valid_date (field p ''createdAt'') \<and> is_valid_date (field p ''updatedAt'')
      \<and> list_all (\<lambda>kv. is_json (snd kv))
           (set_prop ''updatedAt'' Null (set_prop ''createdAt'' Null p)))"

text \<open>The engine reads the ISO string of the instant \<open>t\<close> back as \<open>t\<close>.\<close>

definition iso_ok :: "platform \<Rightarrow> int \<Rightarrow> bool" where
  "iso_ok P t = (js_trim (toISOString P t) \<noteq> [] \<and> Date_parse P (toISOString P t) = Some t)"

definition stamp_ok :: "platform \<Rightarrow> jsval \<Rightarrow> bool" where
  "stamp_ok P v = (case v of DateObj (Some t) \<Rightarrow> iso_ok P t | _ \<Rightarrow> False)"

definition stamps_ok :: "platform \<Rightarrow> obj \<Rightarrow> bool" where
  "stamps_ok P p = (stamp_ok P (field p ''createdAt'') \<and> stamp_ok P (field p ''updatedAt''))"

text \<open>Some storage engine accepts a write.\<close>

definition writable :: "world \<Rightarrow> bool" where
  "writable w = ((chrome_present w \<and> \<not> chrome_fails w) \<or> \<not> local_fails w)"

text \<open>The ids of a collection are pairwise distinct under \<^verbatim>\<open>===\<close>.\<close>

fun distinct_under :: "jsval list \<Rightarrow> bool" where
  "distinct_under [] = True"
| "distinct_under (x # xs) = (\<not> list_ex (strict_eq x) xs \<and> distinct_under xs)"

definition ids_of :: "obj list \<Rightarrow> jsval list" where
  "ids_of ps = map (\<lambda>p. field p ''id'') ps"

definition distinct_ids :: "obj list \<Rightarrow> bool" where
  "distinct_ids ps = distinct_under (ids_of ps)"

text \<open>A stored record whose two timestamps are ISO strings, and a world all of whose
  stored records are such.\<close>

definition iso_string :: "platform \<Rightarrow> json option \<Rightarrow> bool" where
  "iso_string P x = (\<exists>t. x = Some (JStr (toISOString P t)))"

definition canonical_record :: "platform \<Rightarrow> json \<Rightarrow> bool" where
  "canonical_record P x =
     (case x of
        JObj ps \<Rightarrow> iso_string P (map_of ps ''createdAt'') \<and> iso_string P (map_of ps ''updatedAt'')
      | _ \<Rightarrow> False)"

definition canonical_item :: "platform \<Rightarrow> json \<Rightarrow> bool" where
  "canonical_item P j = (case j of JArr xs \<Rightarrow> list_all (canonical_record P) xs | _ \<Rightarrow> True)"

definition canonical_world :: "platform \<Rightarrow> world \<Rightarrow> bool" where
  "canonical_world P w =
     ((case chrome_item w of None \<Rightarrow> True | Some j \<Rightarrow> canonical_item P j)
      \<and> (case local_item w of Text j \<Rightarrow> canonical_item P j | _ \<Rightarrow> True))"

section \<open>Writing and reading back\<close>

text \<open>What \<^verbatim>\<open>getPrompts\<close> makes of a record that \<^verbatim>\<open>savePrompts\<close> wrote at \<open>now\<close> to an
  engine with date handling \<open>D\<close>, and the date handling of the engine that takes a write.\<close>

definition reload_record ::
  "platform \<Rightarrow> int \<Rightarrow> int \<Rightarrow> (int option \<Rightarrow> json) \<Rightarrow> obj \<Rightarrow> error + obj" where
  "reload_record P now now' D p =
     restore_record P now' (of_json (to_json D (Obj (serialize_record P now p))))"

definition engine_date :: "platform \<Rightarrow> world \<Rightarrow> int option \<Rightarrow> json" where
  "engine_date P w = (if chrome_present w \<and> \<not> chrome_fails w then chrome_date else json_date P)"

section \<open>Typed records\<close>

text \<open>A record as the \<^verbatim>\<open>Prompt\<close> interface types it and as the form of the side panel
  builds it; its two dates are valid, its order is an integer.\<close>

record Prompt =
  id' :: string
  title :: string
  content :: string
  tags :: "string list"
  createdAt :: int
  updatedAt :: int
  order' :: int

definition prompt_obj :: "Prompt \<Rightarrow> obj" where
  "prompt_obj r =
     [(''id'', Str (id' r)), (''title'', Str (title r)), (''content'', Str (content r)),
      (''tags'', Arr (map Str (tags r))), (''createdAt'', DateObj (Some (createdAt r))),
      (''updatedAt'', DateObj (Some (updatedAt r))), (''order'', Num (Fin (order' r)))]"

section \<open>The ids of the stored collection\<close>

text \<open>The ids of the stored collection, as \<^verbatim>\<open>getPrompts\<close> returns it (none when it throws).\<close>

definition stored_ids :: "platform \<Rightarrow> int \<Rightarrow> world \<Rightarrow> jsval list" where
  "stored_ids P now w = (case getPrompts P now w of Inl e \<Rightarrow> [] | Inr ps \<Rightarrow> ids_of ps)"

text \<open>An id that the storage engines return as it was written.\<close>

definition stable_id :: "obj \<Rightarrow> bool" where
  "stable_id p = (field p ''id'' = Undefined \<or> is_json (field p ''id''))"

text \<open>The candidates of a document that \<^verbatim>\<open>importPrompts\<close> adds, and their ids.\<close>

definition new_candidates :: "platform \<Rightarrow> int \<Rightarrow> world \<Rightarrow> import_file \<Rightarrow> jsval list" where
  "new_candidates P now w f =
     (case f of
        Document d \<Rightarrow>
          (case get_prop (of_json d) ''prompts'' of
             Inr (Arr candidates) \<Rightarrow>
               (case getPrompts P now w of
                  Inr existingPrompts \<Rightarrow>
                    (case filter_err (is_new_prompt existingPrompts) candidates of
                       Inr newPrompts \<Rightarrow> newPrompts
                     | Inl e \<Rightarrow> [])
                | Inl e \<Rightarrow> [])
           | _ \<Rightarrow> [])
      | _ \<Rightarrow> [])"

definition import_ids :: "platform \<Rightarrow> int \<Rightarrow> world \<Rightarrow> import_file \<Rightarrow> jsval list" where
  "import_ids P now w f = map (\<lambda>c. field (own_props c) ''id'') (new_candidates P now w f)"

text \<open>
  The operations that respect the ids: a create brings a string id that no stored
  record has, a reorder is given well-formed records with pairwise distinct ids, an
  import adds no candidate whose id is that of a stored record or of another candidate
  added.  Update and delete need no condition.
\<close>

fun admissible :: "platform \<Rightarrow> world \<Rightarrow> int \<times> store_op \<Rightarrow> bool" where
  "admissible P w (now, Create p) =
     (case field p ''id'' of
        Str i \<Rightarrow> \<not> list_ex (strict_eq (Str i)) (stored_ids P now w)
      | _ \<Rightarrow> False)"
| "admissible P w (now, Update p) = True"
| "admissible P w (now, Delete i) = True"
| "admissible P w (now, Reorder ps) = (list_all record_shape ps \<and> distinct_ids ps)"
| "admissible P w (now, Import f) = distinct_under (stored_ids P now w @ import_ids P now w f)"

fun admissible_run :: "platform \<Rightarrow> world \<Rightarrow> (int \<times> store_op) list \<Rightarrow> bool" where
  "admissible_run P w [] = True"
| "admissible_run P w (x # xs) = (admissible P w x \<and> admissible_run P (apply_op P w x) xs)"

section \<open>A store at rest\<close>





section \<open>Example data\<close>

text \<open>An excerpt of an engine, for evaluating the model at concrete inputs: the date
  functions agree with \<^verbatim>\<open>Date\<close> on the two instants listed.\<close>

definition example_platform :: platform where
  "example_platform =
     \<lparr>Date_parse = (\<lambda>s. if s = ''1970-01-01T00:00:00.000Z'' then Some 0
                        else if s = ''2023-11-14T22:13:20.000Z'' then Some 1700000000000
                        else None),
      toISOString = (\<lambda>t. if t = 1700000000000 then ''2023-11-14T22:13:20.000Z''
                         else ''1970-01-01T00:00:00.000Z''),
      Object_toString = (\<lambda>v. Inr ''[object Object]''),
      ToNumber_other = (\<lambda>v. Inr NaN),
      round_double = Fin,
      engine_message = (\<lambda>e. ''error'')\<rparr>"

text \<open>Two stored records, as the engines hold them and as \<^verbatim>\<open>getPrompts\<close> returns them.\<close>

definition example_json1 :: json where
  "example_json1 =
     JObj [(''id'', JStr ''p1''), (''title'', JStr ''A''), (''content'', JStr ''B''),
           (''tags'', JArr [JStr ''dev'']),
           (''createdAt'', JStr ''1970-01-01T00:00:00.000Z''),
           (''updatedAt'', JStr ''2023-11-14T22:13:20.000Z''),
           (''order'', JNum 0)]"

definition example_json2 :: json where
  "example_json2 =
     JObj [(''id'', JStr ''p2''), (''title'', JStr ''Write poem''), (''content'', JStr ''Roses''),
           (''tags'', JArr [JStr ''art'']),
           (''createdAt'', JStr ''2023-11-14T22:13:20.000Z''),
           (''updatedAt'', JStr ''2023-11-14T22:13:20.000Z''),
           (''order'', JNum 1)]"

definition example_record1 :: obj where
  "example_record1 =
     [(''id'', Str ''p1''), (''title'', Str ''A''), (''content'', Str ''B''),
      (''tags'', Arr [Str ''dev'']), (''createdAt'', DateObj (Some 0)),
      (''updatedAt'', DateObj (Some 1700000000000)), (''order'', Num (Fin 0))]"

definition example_record2 :: obj where
  "example_record2 =
     [(''id'', Str ''p2''), (''title'', Str ''Write poem''), (''content'', Str ''Roses''),
      (''tags'', Arr [Str ''art'']), (''createdAt'', DateObj (Some 1700000000000)),
      (''updatedAt'', DateObj (Some 1700000000000)), (''order'', Num (Fin 1))]"

text \<open>Four worlds: both engines working; both throwing; the first throwing with a record
  in the second; the first throwing with a text in the second that is not JSON.\<close>

definition example_world :: world where
  "example_world =
     \<lparr>chrome_present = True, chrome_fails = False,
      chrome_item = Some (JArr [example_json1, example_json2]),
      local_fails = False, local_item = NoItem\<rparr>"

definition example_world_down :: world where
  "example_world_down =
     \<lparr>chrome_present = True, chrome_fails = True, chrome_item = None,
      local_fails = True, local_item = NoItem\<rparr>"

definition example_world_fallback :: world where
  "example_world_fallback =
     \<lparr>chrome_present = True, chrome_fails = True, chrome_item = None,
      local_fails = False, local_item = Text (JArr [example_json1])\<rparr>"

definition example_world_corrupt :: world where
  "example_world_corrupt =
     \<lparr>chrome_present = True, chrome_fails = True, chrome_item = None,
      local_fails = False, local_item = BadText\<rparr>"

text \<open>A new record, and import documents with one candidate: one with the title and the
  content of a stored record, one with a content of its own, one with the id of a stored
  record and a title of its own.\<close>

definition example_prompt :: Prompt where
  "example_prompt =
     \<lparr>id' = ''p3'', title = ''Fix bug'', content = ''Find it'', tags = [''dev''],
      createdAt = 1700000000000, updatedAt = 1700000000000, order' = 2\<rparr>"

definition example_duplicate :: json where
  "example_duplicate = JObj [(''id'', JStr ''x1''), (''title'', JStr ''A''), (''content'', JStr ''B'')]"

definition example_new :: json where
  "example_new = JObj [(''id'', JStr ''x2''), (''title'', JStr ''A''), (''content'', JStr ''C'')]"

definition example_same_id :: json where
  "example_same_id = JObj [(''id'', JStr ''p1''), (''title'', JStr ''Other''), (''content'', JStr ''B'')]"

definition example_document :: "json \<Rightarrow> json" where
  "example_document c = JObj [(''prompts'', JArr [c]), (''version'', JStr ''1.0'')]"



section \<open>Auxiliary facts\<close>

subsection \<open>Object properties\<close>

lemma map_of_set_prop: "map_of (set_prop k v ps) = (map_of ps)(k \<mapsto> v)"
  by (induction ps) auto

lemma field_set_prop: "field (set_prop k v ps) k' = (if k' = k then v else field ps k')"
  by (simp add: field_def map_of_set_prop)

lemma set_prop_twice: "set_prop k v (set_prop k v' ps) = set_prop k v ps"
  by (induction ps) auto

lemma set_prop_same: "map_of ps k = Some v \<Longrightarrow> set_prop k v ps = ps"
  by (induction ps) (auto split: if_splits)

lemma set_prop_commute:
  "k \<noteq> k' \<Longrightarrow> map_of ps k \<noteq> None \<Longrightarrow>
   set_prop k v (set_prop k' v' ps) = set_prop k' v' (set_prop k v ps)"
  by (induction ps) auto

lemma list_all_set_prop:
  "list_all Q ps \<Longrightarrow> Q (k, v) \<Longrightarrow> list_all Q (set_prop k v ps)"
  by (induction ps) auto

lemma list_all_map_of:
  "list_all Q ps \<Longrightarrow> map_of ps k = Some v \<Longrightarrow> Q (k, v)"
  by (induction ps) (auto split: if_splits)

lemma map_of_map_props: "map_of (map (map_prod id f) ps) k = map_option f (map_of ps k)"
  by (induction ps) auto

lemma map_of_filter_keys:
  "map_of (filter (\<lambda>p. Q (fst p)) ps) k = (if Q k then map_of ps k else None)"
  by (induction ps) auto

subsection \<open>The serialisation boundary\<close>

lemma is_json_of_json: "is_json (of_json j)"
  by (induction j) (auto simp: list_all_iff)

lemma of_json_to_json: "is_json v \<Longrightarrow> of_json (to_json D v) = v"
proof (induction v)
  case (Arr xs)
  then show ?case by (auto simp: list_all_iff map_idI)
next
  case (Obj ps)
  have vals: "is_json (snd p)" if "p \<in> set ps" for p
    using Obj.prems that by (auto simp: list_all_iff)
  have keep: "map_of ps (fst p) \<noteq> Some Undefined" if "p \<in> set ps" for p
  proof
    assume "map_of ps (fst p) = Some Undefined"
    then have "(fst p, Undefined) \<in> set ps" by (rule map_of_SomeD)
    then have "is_json Undefined" using vals by fastforce
    then show False by simp
  qed
  have "filter (\<lambda>p. map_of ps (fst p) \<noteq> Some Undefined) (map (map_prod id (to_json D)) ps)
        = map (map_prod id (to_json D)) ps"
    using keep by (auto simp: filter_id_conv)
  moreover have "map (map_prod id of_json) (map (map_prod id (to_json D)) ps) = ps"
  proof -
    have "map_prod id of_json (map_prod id (to_json D) p) = p" if "p \<in> set ps" for p
    proof -
      have "of_json (to_json D (snd p)) = snd p"
        using Obj.IH [of p "snd p"] that vals by (cases p) auto
      then show ?thesis by (cases p) auto
    qed
    then show ?thesis by (simp add: map_idI)
  qed
  ultimately show ?case by simp
qed (auto split: jsnum.splits)


subsection \<open>Records across the serialisation boundary\<close>

lemma field_SomeI: "field ps k = v \<Longrightarrow> v \<noteq> Undefined \<Longrightarrow> map_of ps k = Some v"
  by (auto simp: field_def split: option.splits)

lemma is_valid_dateE:
  assumes "is_valid_date v"
  obtains t where "v = DateObj (Some t)"
  using assms by (auto simp: is_valid_date_def split: jsval.splits option.splits)

lemma is_json_Obj: "is_json (Obj ps) = list_all (\<lambda>kv. is_json (snd kv)) ps"
  by (induction ps) auto

lemma is_json_Arr: "is_json (Arr xs) = list_all is_json xs"
  by (induction xs) auto

declare is_json.simps(7,8) [simp del]
declare is_json_Arr [simp] is_json_Obj [simp]

lemma own_props_json:
  assumes "is_json v"
  shows "list_all (\<lambda>kv. is_json (snd kv)) (own_props v)"
proof (cases v)
  case (Arr xs)
  then have "list_all is_json xs" using assms by simp
  then have "\<forall>kv \<in> set (zip (map dec [0..<length xs]) xs). is_json (snd kv)"
    by (auto simp: list_all_iff dest: set_zip_rightD)
  then show ?thesis using Arr by (simp add: list_all_iff)
next
  case (Str s)
  have "\<forall>kv \<in> set (zip (map dec [0..<length s]) (map (\<lambda>c. Str [c]) s)). is_json (snd kv)"
    by (auto dest!: set_zip_rightD)
  then show ?thesis using Str by (simp add: list_all_iff)
next
  case (Obj ps)
  then show ?thesis using assms by simp
qed (use assms in auto)

lemma restore_record_Obj:
  "restore_record P now (Obj ps) =
     Inr (set_prop ''updatedAt'' (DateObj (Some (restoreDateFromStorage P now (field ps ''updatedAt''))))
           (set_prop ''createdAt'' (DateObj (Some (restoreDateFromStorage P now (field ps ''createdAt''))))
             ps))"
  by (simp add: restore_record_def)

lemma restore_record_cases:
  "restore_record P now v = Inl TypeError \<and> (v = Undefined \<or> v = Null)
   \<or> (v \<noteq> Undefined \<and> v \<noteq> Null
       \<and> restore_record P now v = restore_record P now (Obj (own_props v)))"
  by (cases v) (simp_all add: restore_record_def)

lemma stamps_over_props:
  "set_prop ''updatedAt'' a (set_prop ''createdAt'' b
     (set_prop ''updatedAt'' a' (set_prop ''createdAt'' b' ps)))
   = set_prop ''updatedAt'' a (set_prop ''createdAt'' b ps)"
proof -
  have "map_of (set_prop ''createdAt'' b' ps) ''createdAt'' \<noteq> None"
    by (simp add: map_of_set_prop)
  then have "set_prop ''createdAt'' b (set_prop ''updatedAt'' a' (set_prop ''createdAt'' b' ps))
        = set_prop ''updatedAt'' a' (set_prop ''createdAt'' b (set_prop ''createdAt'' b' ps))"
    by (intro set_prop_commute) simp_all
  then show ?thesis by (simp add: set_prop_twice)
qed

lemma record_shape_restored:
  assumes "list_all (\<lambda>kv. is_json (snd kv)) ps"
  shows "record_shape (set_prop ''updatedAt'' (DateObj (Some u))
           (set_prop ''createdAt'' (DateObj (Some c)) ps))"
proof -
  have "set_prop ''createdAt'' Null
          (set_prop ''updatedAt'' (DateObj (Some u)) (set_prop ''createdAt'' (DateObj (Some c)) ps))
        = set_prop ''updatedAt'' (DateObj (Some u))
            (set_prop ''createdAt'' Null (set_prop ''createdAt'' (DateObj (Some c)) ps))"
    by (intro set_prop_commute) (simp_all add: map_of_set_prop)
  then have "set_prop ''updatedAt'' Null (set_prop ''createdAt'' Null
          (set_prop ''updatedAt'' (DateObj (Some u)) (set_prop ''createdAt'' (DateObj (Some c)) ps)))
        = set_prop ''updatedAt'' Null (set_prop ''createdAt'' Null ps)"
    by (simp add: set_prop_twice)
  moreover have "list_all (\<lambda>kv. is_json (snd kv)) (set_prop ''updatedAt'' Null (set_prop ''createdAt'' Null ps))"
    using assms by (simp add: list_all_set_prop)
  ultimately show ?thesis
    by (simp add: record_shape_def field_set_prop is_valid_date_def)
qed

lemma restore_record_shape:
  assumes "restore_record P now v = Inr p" and "is_json v"
  shows "record_shape p"
proof -
  from restore_record_cases [of P now v] assms(1)
  have "restore_record P now (Obj (own_props v)) = Inr p" by auto
  then show ?thesis
    using own_props_json [OF assms(2)] by (auto simp: restore_record_Obj record_shape_restored)
qed

lemma serialized_json:
  assumes "record_shape p"
  shows "is_json (Obj (serialize_record P now p))"
proof -
  let ?b = "set_prop ''updatedAt'' Null (set_prop ''createdAt'' Null p)"
  obtain c where c: "field p ''createdAt'' = DateObj (Some c)"
    using assms by (auto simp: record_shape_def elim: is_valid_dateE)
  then have ex: "map_of p ''createdAt'' \<noteq> None" by (auto dest: field_SomeI)
  have "serialize_record P now p
        = set_prop ''updatedAt'' (Str (dateToISOString P now (field p ''updatedAt'')))
            (set_prop ''createdAt'' (Str (dateToISOString P now (field p ''createdAt''))) ?b)"
  proof -
    have "set_prop ''createdAt'' x (set_prop ''updatedAt'' Null (set_prop ''createdAt'' Null p))
          = set_prop ''updatedAt'' Null (set_prop ''createdAt'' x p)" for x :: jsval
    proof -
      have "set_prop ''createdAt'' x (set_prop ''updatedAt'' Null (set_prop ''createdAt'' Null p))
            = set_prop ''updatedAt'' Null (set_prop ''createdAt'' x (set_prop ''createdAt'' Null p))"
        by (intro set_prop_commute) (simp_all add: map_of_set_prop)
      then show ?thesis by (simp add: set_prop_twice)
    qed
    then show ?thesis by (simp add: serialize_record_def set_prop_twice)
  qed
  moreover have "list_all (\<lambda>kv. is_json (snd kv)) ?b"
    using assms by (simp add: record_shape_def)
  ultimately show ?thesis
    by (simp add: list_all_set_prop)
qed

lemma restore_iso_string:
  "iso_ok P t \<Longrightarrow> restoreDateFromStorage P now (Str (toISOString P t)) = t"
  by (simp add: iso_ok_def)

lemma dateToISOString_valid: "dateToISOString P now (DateObj (Some t)) = toISOString P t"
  by (simp add: dateToISOString_def getValidDateWithFallback_def)

lemma reload_record_same:
  assumes "record_shape p" and "stamps_ok P p"
  shows "reload_record P now now' D p = Inr p"
proof -
  obtain c where c: "field p ''createdAt'' = DateObj (Some c)"
    using assms(1) by (auto simp: record_shape_def elim: is_valid_dateE)
  obtain u where u: "field p ''updatedAt'' = DateObj (Some u)"
    using assms(1) by (auto simp: record_shape_def elim: is_valid_dateE)
  have iso: "iso_ok P c" "iso_ok P u"
    using assms(2) c u by (simp_all add: stamps_ok_def stamp_ok_def)
  let ?s = "serialize_record P now p"
  have s: "?s = set_prop ''updatedAt'' (Str (toISOString P u))
                  (set_prop ''createdAt'' (Str (toISOString P c)) p)"
    by (simp add: serialize_record_def c u dateToISOString_valid)
  have "of_json (to_json D (Obj ?s)) = Obj ?s"
    using serialized_json [OF assms(1)] by (rule of_json_to_json)
  then have "reload_record P now now' D p
     = Inr (set_prop ''updatedAt'' (DateObj (Some (restoreDateFromStorage P now' (field ?s ''updatedAt''))))
           (set_prop ''createdAt'' (DateObj (Some (restoreDateFromStorage P now' (field ?s ''createdAt''))))
             ?s))"
    by (simp add: reload_record_def restore_record_Obj)
  also have "\<dots> = Inr (set_prop ''updatedAt'' (DateObj (Some u))
                       (set_prop ''createdAt'' (DateObj (Some c)) p))"
    unfolding s
    by (simp add: field_set_prop restore_iso_string iso stamps_over_props
          del: restoreDateFromStorage.simps)
  also have "\<dots> = Inr p"
    using c u by (simp add: set_prop_same field_SomeI)
  finally show ?thesis .
qed

subsection \<open>Saving and loading\<close>

lemma map_err_list_all2: "map_err f xs = Inr ys \<longleftrightarrow> list_all2 (\<lambda>x y. f x = Inr y) xs ys"
proof (induction xs arbitrary: ys)
  case Nil
  then show ?case by auto
next
  case (Cons x xs)
  show ?case
  proof (cases ys)
    case Nil
    then show ?thesis by (auto split: sum.splits)
  next
    case (Cons y ys')
    then show ?thesis using Cons.IH [of ys'] by (auto split: sum.splits)
  qed
qed

lemma map_err_map: "map_err f (map g xs) = map_err (\<lambda>x. f (g x)) xs"
  by (induction xs) (auto split: sum.splits)

lemma map_err_total:
  "(\<And>x. x \<in> set xs \<Longrightarrow> \<exists>y. f x = Inr y) \<Longrightarrow> \<exists>ys. map_err f xs = Inr ys"
proof (induction xs)
  case Nil
  then show ?case by simp
next
  case (Cons x xs)
  then obtain y ys where "f x = Inr y" "map_err f xs = Inr ys"
    by (metis list.set_intros(1) list.set_intros(2))
  then show ?case by simp
qed

lemma map_err_same:
  "(\<And>x. x \<in> set xs \<Longrightarrow> f x = Inr x) \<Longrightarrow> map_err f xs = Inr xs"
  by (induction xs) auto

lemma reload_record_fields:
  "\<exists>p'. reload_record P now now' D p = Inr p'
        \<and> record_shape p'
        \<and> (\<forall>k. k \<noteq> ''createdAt'' \<longrightarrow> k \<noteq> ''updatedAt'' \<longrightarrow>
              field p' k = (if field p k = Undefined then Undefined
                            else of_json (to_json D (field p k))))"
proof -
  let ?s = "serialize_record P now p"
  let ?q = "map (map_prod id of_json)
              (filter (\<lambda>kv. map_of ?s (fst kv) \<noteq> Some Undefined)
                 (map (map_prod id (to_json D)) ?s))"
  have v: "of_json (to_json D (Obj ?s)) = Obj ?q" by simp
  obtain p' where p': "reload_record P now now' D p = Inr p'"
    and p'_def: "p' = set_prop ''updatedAt'' (DateObj (Some (restoreDateFromStorage P now' (field ?q ''updatedAt''))))
           (set_prop ''createdAt'' (DateObj (Some (restoreDateFromStorage P now' (field ?q ''createdAt''))))
             ?q)"
    unfolding reload_record_def v restore_record_Obj by simp
  have "is_json (Obj ?q)" using is_json_of_json [of "to_json D (Obj ?s)"] unfolding v .
  then have shape: "record_shape p'"
    unfolding p'_def by (intro record_shape_restored) simp
  have "field p' k = (if field p k = Undefined then Undefined else of_json (to_json D (field p k)))"
    if "k \<noteq> ''createdAt''" "k \<noteq> ''updatedAt''" for k
  proof -
    have "map_of ?s k = map_of p k"
      using that by (simp add: serialize_record_def map_of_set_prop)
    then have "map_of ?q k = (if map_of p k = Some Undefined then None
                              else map_option (\<lambda>v. of_json (to_json D v)) (map_of p k))"
      by (simp add: map_of_map_props option.map_comp comp_def
            map_of_filter_keys [where Q = "\<lambda>k. map_of ?s k \<noteq> Some Undefined"])
    then have "field ?q k = (if field p k = Undefined then Undefined else of_json (to_json D (field p k)))"
      by (auto simp: field_def split: option.splits)
    then show ?thesis using that by (simp add: p'_def field_set_prop)
  qed
  with p' shape show ?thesis by blast
qed

lemma reload_record_total: "\<exists>p'. reload_record P now now' D p = Inr p'"
  using reload_record_fields by blast

lemma savePrompts_result:
  "savePrompts P now w ps =
     (if chrome_present w \<and> \<not> chrome_fails w
      then Inr (w\<lparr>chrome_item := Some (to_json chrome_date (serializedPrompts P now ps))\<rparr>)
      else if \<not> local_fails w
      then Inr (w\<lparr>local_item := Text (to_json (json_date P) (serializedPrompts P now ps))\<rparr>)
      else Inl StorageError)"
  by (simp add: savePrompts_def chrome_set_def local_setItem_def)

lemma savePrompts_writable: "(\<exists>w'. savePrompts P now w ps = Inr w') \<longleftrightarrow> writable w"
  by (auto simp: savePrompts_result writable_def)

lemma restore_all_serialized:
  "restore_all P now' (of_json (to_json D (serializedPrompts P now ps)))
   = map_err (reload_record P now now' D) ps"
  by (simp add: restore_all_def serializedPrompts_def map_err_map reload_record_def [abs_def]
        comp_def del: to_json.simps(8) of_json.simps(6))

lemma getPrompts_after_save:
  assumes "savePrompts P now w ps = Inr w'"
  shows "getPrompts P now' w' = map_err (reload_record P now now' (engine_date P w)) ps"
proof -
  obtain qs where qs: "map_err (reload_record P now now' (engine_date P w)) ps = Inr qs"
    using map_err_total [of ps "reload_record P now now' (engine_date P w)"] reload_record_total
    by blast
  have arr: "truthy (of_json (to_json D (serializedPrompts P now ps)))" for D
    by (simp add: serializedPrompts_def)
  show ?thesis
  proof (cases "chrome_present w \<and> \<not> chrome_fails w")
    case True
    then have w': "w' = w\<lparr>chrome_item := Some (to_json chrome_date (serializedPrompts P now ps))\<rparr>"
      using assms by (simp add: savePrompts_result)
    have "getPrompts_try P now' w' = map_err (reload_record P now now' chrome_date) ps"
      using True arr by (simp add: getPrompts_try_def chrome_get_def w' restore_all_serialized)
    then show ?thesis using True qs by (simp add: getPrompts_def engine_date_def)
  next
    case False
    then have lf: "\<not> local_fails w"
      and w': "w' = w\<lparr>local_item := Text (to_json (json_date P) (serializedPrompts P now ps))\<rparr>"
      using assms by (auto simp: savePrompts_result split: if_splits)
    have c: "getPrompts_catch P now' w' = map_err (reload_record P now now' (json_date P)) ps"
      using lf by (simp add: getPrompts_catch_def local_getItem_def w' restore_all_serialized)
    have "getPrompts_try P now' w' = Inl StorageError \<or> getPrompts_try P now' w' = getPrompts_catch P now' w'"
      using False lf by (auto simp: getPrompts_try_def getPrompts_catch_def chrome_get_def w' local_getItem_def)
    then show ?thesis using False qs c
      by (auto simp: getPrompts_def engine_date_def split: sum.splits)
  qed
qed

lemma getPrompts_after_save_same:
  assumes "savePrompts P now w ps = Inr w'"
    and "\<And>p. p \<in> set ps \<Longrightarrow> record_shape p \<and> stamps_ok P p"
  shows "getPrompts P now' w' = Inr ps"
  using getPrompts_after_save [OF assms(1)] assms(2)
  by (simp add: map_err_same reload_record_same)

lemma getPrompts_writable:
  assumes "getPrompts P now w = Inr ps"
  shows "writable w"
proof (rule ccontr)
  assume "\<not> writable w"
  then have "local_fails w" "\<not> chrome_present w \<or> chrome_fails w"
    by (auto simp: writable_def)
  then have "getPrompts P now w = Inl StorageError"
    by (auto simp: getPrompts_def getPrompts_try_def getPrompts_catch_def chrome_get_def local_getItem_def)
  with assms show False by simp
qed

lemma getPrompts_shape:
  assumes "getPrompts P now w = Inr ps" and "p \<in> set ps"
  shows "record_shape p"
proof -
  have shape: "record_shape p"
    if "restore_all P now v = Inr ps" "is_json v" for v
  proof -
    from that obtain xs where v: "v = Arr xs" and m: "map_err (restore_record P now) xs = Inr ps"
      by (auto simp: restore_all_def split: jsval.splits)
    from m have "list_all2 (\<lambda>x y. restore_record P now x = Inr y) xs ps"
      by (simp add: map_err_list_all2)
    moreover obtain i where "i < length ps" "p = ps ! i"
      using assms(2) by (auto simp: in_set_conv_nth)
    ultimately have "xs ! i \<in> set xs" "restore_record P now (xs ! i) = Inr p"
      by (auto simp: list_all2_conv_all_nth)
    then obtain x where "x \<in> set xs" "restore_record P now x = Inr p" by blast
    moreover have "is_json x" using that(2) v \<open>x \<in> set xs\<close> by (auto simp: list_all_iff)
    ultimately show ?thesis by (auto intro: restore_record_shape)
  qed
  have parse: "is_json v" if "parse_stored s = Inr v" for s v
    using that by (cases s) (auto simp: is_json_of_json)
  have c: "record_shape p" if "getPrompts_catch P now w = Inr ps"
    using that shape parse
    by (auto simp: getPrompts_catch_def split: sum.splits)
  have t: "record_shape p" if "getPrompts_try P now w = Inr ps"
  proof (cases "chrome_present w")
    case True
    have "\<exists>v. chrome_get w = Inr v
           \<and> restore_all P now (if truthy v then v else Arr []) = Inr ps"
    proof (cases "chrome_get w")
      case (Inl e)
      then show ?thesis using that True by (simp add: getPrompts_try_def)
    next
      case (Inr v)
      then show ?thesis using that True by (simp add: getPrompts_try_def)
    qed
    then obtain v where "chrome_get w = Inr v"
      and r: "restore_all P now (if truthy v then v else Arr []) = Inr ps"
      by blast
    then have "v = Undefined \<or> is_json v"
      by (auto simp: chrome_get_def is_json_of_json split: if_splits option.splits)
    then have "is_json (if truthy v then v else Arr [])" by auto
    with r show ?thesis by (rule shape)
  next
    case False
    then show ?thesis using that shape parse
      by (auto simp: getPrompts_try_def split: sum.splits)
  qed
  from assms(1) show ?thesis
    using c t by (auto simp: getPrompts_def split: sum.splits)
qed

section \<open>Numeric date normalization\<close>

text \<open>
  Claim C9.  A finite non-negative number below 10,000,000,000 is read as seconds and
  scaled by 1000; from 10,000,000,000 on it is read as milliseconds (and is a date as
  long as it is within the range of \<^verbatim>\<open>Date\<close>).  The inputs 1700000000 and 1700000000000
  give the same instant.  A negative or non-finite number gives no value.
\<close>

theorem getValidDate_numeric:
  "(0 \<le> n \<and> n < 10000000000 \<longrightarrow> getValidDate P (Num (Fin n)) = Some (n * 1000))
   \<and> (10000000000 \<le> n \<longrightarrow> getValidDate P (Num (Fin n)) = new_Date n)
   \<and> (10000000000 \<le> n \<and> n \<le> 8640000000000000 \<longrightarrow> getValidDate P (Num (Fin n)) = Some n)
   \<and> getValidDate P (Num (Fin 1700000000)) = Some 1700000000000
   \<and> getValidDate P (Num (Fin 1700000000000)) = Some 1700000000000
   \<and> (n < 0 \<longrightarrow> getValidDate P (Num (Fin n)) = None)
   \<and> getValidDate P (Num NaN) = None
   \<and> getValidDate P (Num PosInf) = None
   \<and> getValidDate P (Num NegInf) = None"
  by (simp add: new_Date_def)

theorem getValidDate_numeric_witness:
  "getValidDate example_platform (Num (Fin 5)) = Some 5000
   \<and> getValidDate example_platform (Num (Fin 20000000000)) = Some 20000000000
   \<and> getValidDate example_platform (Num (Fin (- 1))) = None"
  using getValidDate_numeric [of 5 example_platform] getValidDate_numeric [of 20000000000 example_platform]
    getValidDate_numeric [of "- 1" example_platform]
  by simp

subsection \<open>The example world\<close>

lemma example_world_list:
  "getPrompts example_platform now example_world = Inr [example_record1, example_record2]"
  by (simp add: getPrompts_def getPrompts_try_def chrome_get_def example_world_def
      example_json1_def example_json2_def restore_all_def restore_record_def field_def
      example_platform_def js_trim_def js_whitespace_def example_record1_def example_record2_def)

section \<open>The read path\<close>

text \<open>
  Claim C1, as the code has it.  When the \<^verbatim>\<open>try\<close> block of \<^verbatim>\<open>getPrompts\<close> throws, the
  result is that of reading \<^verbatim>\<open>localStorage\<close>: the records stored there, the empty
  collection when there is no item, and otherwise the error of that second read, which
  nothing catches.
\<close>

theorem getPrompts_fallback:
  assumes "getPrompts_try P now w = Inl e"
  shows "getPrompts P now w = getPrompts_catch P now w
    \<and> (\<not> local_fails w \<and> local_item w = NoItem \<longrightarrow> getPrompts P now w = Inr [])
    \<and> (\<forall>j. \<not> local_fails w \<and> local_item w = Text j \<longrightarrow>
           getPrompts P now w = restore_all P now (of_json j))
    \<and> (local_fails w \<longrightarrow> getPrompts P now w = Inl StorageError)
    \<and> (\<not> local_fails w \<and> local_item w = BadText \<longrightarrow> getPrompts P now w = Inl SyntaxError)"
  using assms
  by (simp add: getPrompts_def getPrompts_catch_def local_getItem_def restore_all_def)

theorem getPrompts_fallback_witness:
  "getPrompts_try example_platform 5 example_world_fallback = Inl StorageError
   \<and> getPrompts example_platform 5 example_world_fallback = Inr [example_record1]"
proof -
  have t: "getPrompts_try example_platform 5 example_world_fallback = Inl StorageError"
    by (simp add: getPrompts_try_def chrome_get_def example_world_fallback_def)
  have "restore_all example_platform 5 (of_json (JArr [example_json1])) = Inr [example_record1]"
    by (simp add: restore_all_def restore_record_def field_def example_json1_def
        example_platform_def js_trim_def js_whitespace_def example_record1_def)
  moreover have "\<not> local_fails example_world_fallback
      \<and> local_item example_world_fallback = Text (JArr [example_json1])"
    by (simp add: example_world_fallback_def)
  with getPrompts_fallback [OF t]
  have "getPrompts example_platform 5 example_world_fallback
        = restore_all example_platform 5 (of_json (JArr [example_json1]))"
    by blast
  ultimately show ?thesis using t by simp
qed

text \<open>Claim C1 as stated fails: with the first engine throwing, \<^verbatim>\<open>getPrompts\<close> throws when
  the second engine throws too, and when the text in the second engine is not JSON.\<close>

theorem getPrompts_raises_counterexample:
  "getPrompts example_platform 5 example_world_down = Inl StorageError
   \<and> getPrompts example_platform 5 example_world_corrupt = Inl SyntaxError"
  by (simp add: getPrompts_def getPrompts_try_def getPrompts_catch_def chrome_get_def
      local_getItem_def example_world_down_def example_world_corrupt_def)

section \<open>Import of a malformed document\<close>

text \<open>
  Claim C6.  A document whose \<^verbatim>\<open>prompts\<close> property is missing or is not an array is
  refused: the outcome is a failure with \<open>imported = 0\<close> and nothing is written.  Whatever
  is thrown inside \<^verbatim>\<open>importPrompts\<close> is returned as such a failure, with the stores
  untouched; the outcome is a success exactly when the \<^verbatim>\<open>try\<close> block ran to its end.
\<close>

theorem importPrompts_invalid:
  "((\<forall>cs. get_prop (of_json d) ''prompts'' \<noteq> Inr (Arr cs)) \<longrightarrow>
      fst (importPrompts P now w (Document d)) = w
      \<and> success (snd (importPrompts P now w (Document d))) = False
      \<and> imported (snd (importPrompts P now w (Document d))) = 0)
   \<and> ((\<exists>v. get_prop (of_json d) ''prompts'' = Inr v \<and> (\<forall>cs. v \<noteq> Arr cs)) \<longrightarrow>
      message (snd (importPrompts P now w (Document d)))
        = ''Invalid file format: missing prompts array'')
   \<and> (import_try P now w f = Inl e \<longrightarrow>
      importPrompts P now w f
        = (w, \<lparr>success = False, imported = 0, message = error_message P e\<rparr>))
   \<and> (success (snd (importPrompts P now w f)) \<longleftrightarrow> (\<exists>r. import_try P now w f = Inr r))
   \<and> (\<not> success (snd (importPrompts P now w f)) \<longrightarrow>
      imported (snd (importPrompts P now w f)) = 0 \<and> fst (importPrompts P now w f) = w)"
proof -
  have a: "import_try P now w (Document d) = Inl TypeError \<or>
           import_try P now w (Document d) = Inl InvalidFormat"
    if "\<forall>cs. get_prop (of_json d) ''prompts'' \<noteq> Inr (Arr cs)"
  proof (cases "get_prop (of_json d) ''prompts''")
    case (Inl e)
    then have "e = TypeError" by (cases "of_json d") auto
    with Inl show ?thesis by (simp add: import_try_def)
  next
    case (Inr v)
    with that have "\<forall>cs. v \<noteq> Arr cs" by simp
    with Inr show ?thesis by (cases v) (simp_all add: import_try_def)
  qed
  have b: "import_try P now w (Document d) = Inl InvalidFormat"
    if "get_prop (of_json d) ''prompts'' = Inr v" "\<forall>cs. v \<noteq> Arr cs" for v
    using that by (cases v) (simp_all add: import_try_def)
  have c: "importPrompts P now w f = (w, \<lparr>success = False, imported = 0, message = error_message P e\<rparr>)"
    if "import_try P now w f = Inl e" for f e
    using that by (simp add: importPrompts_def)
  have d: "success (snd (importPrompts P now w f)) \<longleftrightarrow> (\<exists>r. import_try P now w f = Inr r)"
    by (cases "import_try P now w f") (auto simp: importPrompts_def)
  have e: "imported (snd (importPrompts P now w f)) = 0 \<and> fst (importPrompts P now w f) = w"
    if "\<not> success (snd (importPrompts P now w f))"
    using that by (cases "import_try P now w f") (auto simp: importPrompts_def)
  from a b c d e show ?thesis
    by (auto simp: error_message_def)
qed

theorem importPrompts_invalid_witness:
  "importPrompts example_platform 5 example_world (Document (JObj [(''version'', JStr ''1.0'')]))
     = (example_world, \<lparr>success = False, imported = 0,
                       message = ''Invalid file format: missing prompts array''\<rparr>)
   \<and> importPrompts example_platform 5 example_world (Document (JObj [(''prompts'', JStr ''x'')]))
     = (example_world, \<lparr>success = False, imported = 0,
                       message = ''Invalid file format: missing prompts array''\<rparr>)"
proof -
  have t: "import_try example_platform 5 example_world (Document d) = Inl InvalidFormat"
    if "d = JObj [(''version'', JStr ''1.0'')] \<or> d = JObj [(''prompts'', JStr ''x'')]" for d
    using that by (auto simp: import_try_def field_def)
  show ?thesis
    using importPrompts_invalid [of "JObj [(''version'', JStr ''1.0'')]" example_platform 5 example_world
            "Document (JObj [(''version'', JStr ''1.0'')])" InvalidFormat]
      importPrompts_invalid [of "JObj [(''prompts'', JStr ''x'')]" example_platform 5 example_world
            "Document (JObj [(''prompts'', JStr ''x'')])" InvalidFormat]
      t
    by (simp add: error_message_def)
qed

subsection \<open>Facts about the operations\<close>




lemma record_shape_set_prop:
  assumes "record_shape p" and "is_json v" and "k \<noteq> ''createdAt''" and "k \<noteq> ''updatedAt''"
  shows "record_shape (set_prop k v p)"
proof -
  have c: "map_of p ''createdAt'' \<noteq> None" and u: "map_of p ''updatedAt'' \<noteq> None"
    using assms(1) by (auto simp: record_shape_def elim!: is_valid_dateE dest: field_SomeI)
  have "set_prop ''createdAt'' Null (set_prop k v p) = set_prop k v (set_prop ''createdAt'' Null p)"
    using c assms(3) by (intro set_prop_commute) auto
  moreover have "set_prop ''updatedAt'' Null (set_prop k v (set_prop ''createdAt'' Null p))
    = set_prop k v (set_prop ''updatedAt'' Null (set_prop ''createdAt'' Null p))"
    using u assms(3,4) by (intro set_prop_commute) (auto simp: map_of_set_prop)
  ultimately show ?thesis
    using assms by (simp add: record_shape_def field_set_prop list_all_set_prop)
qed

lemma stamps_ok_set_prop:
  "stamps_ok P p \<Longrightarrow> k \<noteq> ''createdAt'' \<Longrightarrow> k \<noteq> ''updatedAt'' \<Longrightarrow> stamps_ok P (set_prop k v p)"
  by (simp add: stamps_ok_def field_set_prop)

lemma with_order_nth:
  "i < length ps \<Longrightarrow> with_order ps ! i = set_prop ''order'' (Num (Fin (int i))) (ps ! i)"
  by (simp add: with_order_def nth_enumerate_eq)

lemma length_with_order: "length (with_order ps) = length ps"
  by (simp add: with_order_def)

lemma with_order_storable:
  assumes "\<And>p. p \<in> set ps \<Longrightarrow> record_shape p \<and> stamps_ok P p" and "q \<in> set (with_order ps)"
  shows "record_shape q \<and> stamps_ok P q"
proof -
  from assms(2) obtain i where "i < length ps" "q = with_order ps ! i"
    by (auto simp: in_set_conv_nth length_with_order)
  then have "q = set_prop ''order'' (Num (Fin (int i))) (ps ! i)" "ps ! i \<in> set ps"
    by (simp_all add: with_order_nth)
  then show ?thesis
    using assms(1) [of "ps ! i"] by (simp add: record_shape_set_prop stamps_ok_set_prop)
qed

lemma reorder_then_list:
  assumes "writable w" and "\<And>p. p \<in> set ps \<Longrightarrow> record_shape p \<and> stamps_ok P p"
  shows "\<exists>w'. reorderPrompts P now w ps = Inr w' \<and> getPrompts P now' w' = Inr (with_order ps)"
proof -
  obtain w' where w': "savePrompts P now w (with_order ps) = Inr w'"
    using assms(1) savePrompts_writable by blast
  then have "getPrompts P now' w' = Inr (with_order ps)"
    using with_order_storable [of ps P] assms(2) by (intro getPrompts_after_save_same) blast+
  with w' show ?thesis by (simp add: reorderPrompts_def)
qed

subsection \<open>A store at rest\<close>





section \<open>Mutations of a missing id\<close>




section \<open>Reordering\<close>

text \<open>
  Claim C10.  \<^verbatim>\<open>reorderPrompts\<close> does not read the store: for any list \<open>ps\<close> of
  well-formed records, whatever was stored before, the collection read afterwards is
  exactly \<open>ps\<close> with the \<^verbatim>\<open>order\<close> of each record set to its index, and the engine that
  took the write holds exactly the serialisation of that list.  So a record that was
  stored and is not in \<open>ps\<close> is gone.
\<close>

theorem reorder_overwrites:
  assumes "writable w" and "\<forall>p \<in> set ps. record_shape p \<and> stamps_ok P p"
  shows "\<exists>w'. reorderPrompts P now w ps = Inr w'
    \<and> getPrompts P now' w' = Inr (with_order ps)
    \<and> length (with_order ps) = length ps
    \<and> (\<forall>i < length ps. with_order ps ! i = set_prop ''order'' (Num (Fin (int i))) (ps ! i))
    \<and> (if chrome_present w \<and> \<not> chrome_fails w
        then chrome_item w' = Some (to_json chrome_date (serializedPrompts P now (with_order ps)))
        else local_item w' = Text (to_json (json_date P) (serializedPrompts P now (with_order ps))))"
proof -
  obtain w' where w': "reorderPrompts P now w ps = Inr w'"
    and l: "getPrompts P now' w' = Inr (with_order ps)"
    using reorder_then_list [of w ps P now now'] assms by blast
  have "if chrome_present w \<and> \<not> chrome_fails w
        then chrome_item w' = Some (to_json chrome_date (serializedPrompts P now (with_order ps)))
        else local_item w' = Text (to_json (json_date P) (serializedPrompts P now (with_order ps)))"
    using w' by (auto simp: reorderPrompts_def savePrompts_result split: if_splits)
  with w' l show ?thesis
    by (simp add: length_with_order with_order_nth)
qed

theorem reorder_overwrites_witness:
  "\<exists>w'. reorderPrompts example_platform 5 example_world [example_record2] = Inr w'
    \<and> getPrompts example_platform 7 w'
        = Inr [set_prop ''order'' (Num (Fin 0)) example_record2]"
proof -
  have w: "writable example_world" by (simp add: writable_def example_world_def)
  have s: "\<forall>p \<in> set [example_record2]. record_shape p \<and> stamps_ok example_platform p"
    by (simp add: record_shape_def is_valid_date_def stamps_ok_def stamp_ok_def iso_ok_def
        field_def example_record2_def example_platform_def js_trim_def js_whitespace_def)
  have "with_order [example_record2] = [set_prop ''order'' (Num (Fin 0)) example_record2]"
    by (simp add: with_order_def)
  with reorder_overwrites [OF w s, where now = 5 and now' = 7] show ?thesis by auto
qed

subsection \<open>Sorting a collection that is already in order\<close>

lemma insert_by_order_front:
  assumes "field a ''order'' = Num (Fin x)"
    and "bs = [] \<or> (\<exists>y. field (hd bs) ''order'' = Num (Fin y) \<and> x \<le> y)"
  shows "insert_by_order P a bs = Inr (a # bs)"
  using assms by (cases bs) (auto simp: order_after_def)

lemma sort_by_order_ascending:
  assumes "\<And>i. i < length ps \<Longrightarrow> field (ps ! i) ''order'' = Num (Fin (int (n + i)))"
  shows "sort_by_order P ps = Inr ps"
  using assms
proof (induction ps arbitrary: n)
  case Nil
  then show ?case by simp
next
  case (Cons a ps)
  have "sort_by_order P ps = Inr ps"
  proof (rule Cons.IH [of "Suc n"])
    fix i assume "i < length ps"
    then show "field (ps ! i) ''order'' = Num (Fin (int (Suc n + i)))"
      using Cons.prems [of "Suc i"] by simp
  qed
  moreover have "field a ''order'' = Num (Fin (int n))"
    using Cons.prems [of 0] by simp
  moreover have "ps = [] \<or> (\<exists>y. field (hd ps) ''order'' = Num (Fin y) \<and> int n \<le> y)"
  proof (cases ps)
    case Nil
    then show ?thesis by simp
  next
    case (Cons b bs)
    then show ?thesis using Cons.prems [of 1] by simp
  qed
  ultimately show ?case by (simp add: insert_by_order_front)
qed

lemma sort_with_order: "sort_by_order P (with_order ps) = Inr (with_order ps)"
  by (rule sort_by_order_ascending [of _ 0])
    (simp add: length_with_order with_order_nth field_set_prop)

section \<open>Reordering a permutation\<close>

text \<open>
  Claim C4.  Let \<open>qs\<close> be a permutation of the stored collection \<open>ps\<close>.  After
  \<^verbatim>\<open>reorderPrompts(qs)\<close> the \<^verbatim>\<open>order\<close> of each record is its index in \<open>qs\<close> and its other
  properties are as in \<open>qs\<close>; \<^verbatim>\<open>getPrompts\<close> returns the records in the sequence \<open>qs\<close>, and
  sorting them by \<^verbatim>\<open>order\<close>, as the controller does on load, leaves that sequence as it is.
\<close>

theorem reorder_permutation:
  assumes "getPrompts P now0 w = Inr ps"
    and "mset qs = mset ps"
    and "\<forall>p \<in> set ps. stamps_ok P p"
  shows "\<exists>w'. reorderPrompts P now w qs = Inr w'
    \<and> getPrompts P now' w' = Inr (with_order qs)
    \<and> loadPrompts P now' w' = Inr (with_order qs)
    \<and> length (with_order qs) = length qs
    \<and> (\<forall>i < length qs.
          field (with_order qs ! i) ''order'' = Num (Fin (int i))
          \<and> (\<forall>k. k \<noteq> ''order'' \<longrightarrow> field (with_order qs ! i) k = field (qs ! i) k))"
proof -
  have "set qs = set ps" using assms(2) by (rule mset_eq_setD)
  then have "\<And>p. p \<in> set qs \<Longrightarrow> record_shape p \<and> stamps_ok P p"
    using assms(3) getPrompts_shape [OF assms(1)] by blast
  then obtain w' where w': "reorderPrompts P now w qs = Inr w'"
    and l: "getPrompts P now' w' = Inr (with_order qs)"
    using reorder_then_list [of w qs P now now'] getPrompts_writable [OF assms(1)] by blast
  from l have "loadPrompts P now' w' = Inr (with_order qs)"
    by (simp add: loadPrompts_def sort_with_order)
  with w' l show ?thesis
    by (simp add: length_with_order with_order_nth field_set_prop)
qed

theorem reorder_permutation_witness:
  "\<exists>w'. reorderPrompts example_platform 5 example_world [example_record2, example_record1] = Inr w'
     \<and> loadPrompts example_platform 7 w'
         = Inr [set_prop ''order'' (Num (Fin 0)) example_record2,
                set_prop ''order'' (Num (Fin 1)) example_record1]"
proof -
  have l: "getPrompts example_platform 5 example_world = Inr [example_record1, example_record2]"
    by (rule example_world_list)
  have m: "mset [example_record2, example_record1] = mset [example_record1, example_record2]"
    by (simp add: add.commute)
  have s: "\<forall>p \<in> set [example_record1, example_record2]. stamps_ok example_platform p"
    by (simp add: stamps_ok_def stamp_ok_def iso_ok_def field_def example_record1_def
        example_record2_def example_platform_def js_trim_def js_whitespace_def)
  have "with_order [example_record2, example_record1]
        = [set_prop ''order'' (Num (Fin 0)) example_record2,
           set_prop ''order'' (Num (Fin 1)) example_record1]"
    by (simp add: with_order_def)
  with reorder_permutation [OF l m s, where now = 5 and now' = 7] show ?thesis by auto
qed

section \<open>Create, then list\<close>

lemma prompt_obj_shape: "record_shape (prompt_obj r)"
  by (simp add: record_shape_def prompt_obj_def field_def is_valid_date_def list_all_iff)

lemma record_shape_field:
  assumes "record_shape p" and "k \<noteq> ''createdAt''" and "k \<noteq> ''updatedAt''"
  shows "field p k = Undefined \<or> is_json (field p k)"
proof (cases "map_of p k")
  case None
  then show ?thesis by (simp add: field_def)
next
  case (Some v)
  then have "map_of (set_prop ''updatedAt'' Null (set_prop ''createdAt'' Null p)) k = Some v"
    using assms(2,3) by (simp add: map_of_set_prop)
  moreover have "list_all (\<lambda>kv. is_json (snd kv))
      (set_prop ''updatedAt'' Null (set_prop ''createdAt'' Null p))"
    using assms(1) by (simp add: record_shape_def)
  ultimately have "is_json v" by (auto dest: list_all_map_of)
  with Some show ?thesis by (simp add: field_def)
qed

lemma reload_record_field:
  assumes "reload_record P now now' D p = Inr q" and "record_shape p"
    and "k \<noteq> ''createdAt''" and "k \<noteq> ''updatedAt''"
  shows "field q k = field p k"
proof -
  obtain p' where p': "reload_record P now now' D p = Inr p'"
    and f: "field p' k = (if field p k = Undefined then Undefined
                          else of_json (to_json D (field p k)))"
    using reload_record_fields [of P now now' D p] assms(3,4) by blast
  from p' assms(1) have "p' = q" by simp
  moreover have "field p k = Undefined \<or> of_json (to_json D (field p k)) = field p k"
    using record_shape_field [OF assms(2,3,4)] of_json_to_json by blast
  ultimately show ?thesis using f by auto
qed

lemma ids_of_reloaded:
  assumes "list_all2 (\<lambda>p q. reload_record P now now' D p = Inr q) ps qs"
    and "\<And>p. p \<in> set ps \<Longrightarrow> record_shape p"
  shows "ids_of qs = ids_of ps"
  using assms
  by (induction ps qs rule: list_all2_induct) (auto simp: ids_of_def reload_record_field)

lemma map_err_append:
  "map_err f (xs @ ys) =
     (case map_err f xs of
        Inl e \<Rightarrow> Inl e
      | Inr xs' \<Rightarrow> (case map_err f ys of Inl e \<Rightarrow> Inl e | Inr ys' \<Rightarrow> Inr (xs' @ ys')))"
  by (induction xs) (auto split: sum.splits)

lemma reload_all_total:
  "\<exists>qs. map_err (reload_record P now now' D) ps = Inr qs
       \<and> list_all2 (\<lambda>p q. reload_record P now now' D p = Inr q) ps qs"
proof -
  obtain qs where "map_err (reload_record P now now' D) ps = Inr qs"
    using map_err_total [of ps "reload_record P now now' D"] reload_record_total by blast
  then show ?thesis by (auto simp: map_err_list_all2)
qed

text \<open>
  Claim C5.  Let \<open>r\<close> be a record whose id no stored record has.  \<^verbatim>\<open>addPrompt(r)\<close> returns
  normally, and the collection read afterwards is the earlier records, with their ids,
  followed by \<open>r\<close> itself: exactly one record has the id of \<open>r\<close>, and it has the title,
  content, tags, timestamps (as instants) and order of \<open>r\<close>.
\<close>

theorem create_then_list:
  assumes "getPrompts P now w = Inr ps"
    and "\<not> list_ex (\<lambda>p. strict_eq (field p ''id'') (Str (id' r))) ps"
    and "iso_ok P (createdAt r)" and "iso_ok P (updatedAt r)"
  shows "\<exists>w' ps'. addPrompt P now w (prompt_obj r) = Inr w'
    \<and> getPrompts P now' w' = Inr (ps' @ [prompt_obj r])
    \<and> ids_of ps' = ids_of ps
    \<and> filter (\<lambda>p. strict_eq (field p ''id'') (Str (id' r))) (ps' @ [prompt_obj r])
        = [prompt_obj r]"
proof -
  let ?D = "engine_date P w"
  obtain w' where w': "savePrompts P now w (ps @ [prompt_obj r]) = Inr w'"
    using getPrompts_writable [OF assms(1)] savePrompts_writable by blast
  obtain ps' where ps': "map_err (reload_record P now now' ?D) ps = Inr ps'"
    and rel: "list_all2 (\<lambda>p q. reload_record P now now' ?D p = Inr q) ps ps'"
    using reload_all_total by blast
  have "stamps_ok P (prompt_obj r)"
    using assms(3,4) by (simp add: stamps_ok_def stamp_ok_def prompt_obj_def field_def)
  then have "reload_record P now now' ?D (prompt_obj r) = Inr (prompt_obj r)"
    using prompt_obj_shape by (rule reload_record_same [rotated])
  with ps' have l: "getPrompts P now' w' = Inr (ps' @ [prompt_obj r])"
    by (simp add: getPrompts_after_save [OF w'] map_err_append)
  have ids: "ids_of ps' = ids_of ps"
    using rel getPrompts_shape [OF assms(1)] by (rule ids_of_reloaded)
  have "\<not> strict_eq (field p ''id'') (Str (id' r))" if "p \<in> set ps'" for p
  proof -
    have "field p ''id'' \<in> set (ids_of ps)"
      using that ids [symmetric] by (auto simp: ids_of_def)
    then show ?thesis using assms(2) by (auto simp: ids_of_def list_ex_iff)
  qed
  then have "filter (\<lambda>p. strict_eq (field p ''id'') (Str (id' r))) ps' = []"
    by (simp add: filter_empty_conv)
  moreover have "strict_eq (field (prompt_obj r) ''id'') (Str (id' r))"
    by (simp add: prompt_obj_def field_def)
  ultimately have "filter (\<lambda>p. strict_eq (field p ''id'') (Str (id' r))) (ps' @ [prompt_obj r])
      = [prompt_obj r]"
    by simp
  with w' l ids assms(1) show ?thesis by (auto simp: addPrompt_def)
qed

theorem create_then_list_witness:
  "\<exists>w' ps'. addPrompt example_platform 5 example_world (prompt_obj example_prompt) = Inr w'
     \<and> getPrompts example_platform 7 w' = Inr (ps' @ [prompt_obj example_prompt])
     \<and> ids_of ps' = [Str ''p1'', Str ''p2'']"
proof -
  have l: "getPrompts example_platform 5 example_world = Inr [example_record1, example_record2]"
    by (rule example_world_list)
  have n: "\<not> list_ex (\<lambda>p. strict_eq (field p ''id'') (Str (id' example_prompt)))
             [example_record1, example_record2]"
    by (simp add: field_def example_record1_def example_record2_def example_prompt_def)
  have i: "iso_ok example_platform (createdAt example_prompt)"
    "iso_ok example_platform (updatedAt example_prompt)"
    by (simp_all add: iso_ok_def example_prompt_def example_platform_def js_trim_def
        js_whitespace_def)
  have "ids_of [example_record1, example_record2] = [Str ''p1'', Str ''p2'']"
    by (simp add: ids_of_def field_def example_record1_def example_record2_def)
  with create_then_list [OF l n i, where now' = 7] show ?thesis by auto
qed

subsection \<open>Facts about import\<close>

lemma get_prop_eq:
  "get_prop v k = (if v = Undefined \<or> v = Null then Inl TypeError else Inr (field (own_props v) k))"
  by (cases v) simp_all

lemma field_own_props_nullish: "v = Undefined \<or> v = Null \<Longrightarrow> field (own_props v) k = Undefined"
  by (auto simp: field_def)

lemma Math_max_Fin:
  assumes "ns \<noteq> []"
  shows "Math_max (map Fin ns) = Fin (Max (set ns))"
proof -
  have "foldl num_max (Fin a) (map Fin ms) = Fin (Max (insert a (set ms)))" for a ms
  proof (induction ms arbitrary: a)
    case Nil
    then show ?case by simp
  next
    case (Cons m ms)
    have "Max (insert (max a m) (set ms)) = Max (insert a (insert m (set ms)))"
      by (cases "set ms = {}") (simp_all add: max.assoc)
    then show ?case using Cons.IH [of "max a m"] by simp
  qed
  then show ?thesis using assms by (cases ns) (simp_all add: Math_max_def)
qed

lemma max_order_Fin:
  assumes "map (\<lambda>p. field p ''order'') ps = map (\<lambda>n. Num (Fin n)) ns" and "ps \<noteq> []"
  shows "max_order P ps = Inr (Fin (Max (set ns)))"
proof -
  have len: "length ps = length ns" using assms(1) by (rule map_eq_imp_length_eq)
  have "field (ps ! i) ''order'' = Num (Fin (ns ! i))" if "i < length ps" for i
    using that len nth_map [of i ps "\<lambda>p. field p ''order''"] assms(1) by simp
  then have "list_all2 (\<lambda>p y. to_number P (field p ''order'') = Inr y) ps (map Fin ns)"
    using len by (simp add: list_all2_conv_all_nth)
  then have "map_err (\<lambda>p. to_number P (field p ''order'')) ps = Inr (map Fin ns)"
    by (simp add: map_err_list_all2)
  moreover have "ns \<noteq> []" using len assms(2) by auto
  ultimately show ?thesis using assms(2) by (simp add: max_order_def Math_max_Fin)
qed

lemma prepare_import_fields:
  "field (prepare_import P now m i v) ''order'' = Num (num_add P (num_add P m (Fin 1)) (Fin (int i)))"
  "field (prepare_import P now m i v) ''title'' = field (own_props v) ''title''"
  "field (prepare_import P now m i v) ''content'' = field (own_props v) ''content''"
  "truthy (field (own_props v) ''id'') \<Longrightarrow>
     field (prepare_import P now m i v) ''id'' = field (own_props v) ''id''"
  by (simp_all add: prepare_import_def Let_def field_set_prop)

lemma field_json:
  assumes "is_json v"
  shows "field (own_props v) k = Undefined \<or> is_json (field (own_props v) k)"
proof (cases "map_of (own_props v) k")
  case None
  then show ?thesis by (simp add: field_def)
next
  case (Some x)
  then have "is_json x" using own_props_json [OF assms] by (auto dest: list_all_map_of)
  with Some show ?thesis by (simp add: field_def)
qed

lemma reload_record_json_field:
  assumes "reload_record P now now' D p = Inr q" and "is_json (field p k)"
    and "k \<noteq> ''createdAt''" and "k \<noteq> ''updatedAt''"
  shows "field q k = field p k"
proof -
  obtain p' where p': "reload_record P now now' D p = Inr p'"
    and f: "field p' k = (if field p k = Undefined then Undefined
                          else of_json (to_json D (field p k)))"
    using reload_record_fields [of P now now' D p] assms(3,4) by blast
  from p' assms(1) have "p' = q" by simp
  moreover have "field p k \<noteq> Undefined" using assms(2) by auto
  ultimately show ?thesis using f assms(2) by (simp add: of_json_to_json)
qed

section \<open>Import: duplicates and order\<close>

text \<open>
  Claim C3.  Let the stored collection \<open>ps\<close> contain a record with title \<open>a\<close> and
  content \<open>b\<close>, and let the document hold one candidate \<open>c\<close>.  If \<open>c\<close> has that title and
  that content, nothing is imported: the count is 0 and nothing is written.  If \<open>c\<close> has
  an id, a title and a content and no stored record has both its title and its content,
  it is imported: the count is 1, and the collection read afterwards is the earlier
  records followed by \<open>c\<close> with \<^verbatim>\<open>order\<close> one above the largest stored order.
\<close>

theorem import_dedup:
  assumes "getPrompts P now w = Inr ps"
    and "e \<in> set ps" and "field e ''title'' = Str a" and "field e ''content'' = Str b"
    and "get_prop (of_json d) ''prompts'' = Inr (Arr [of_json c])"
  shows "(field (own_props (of_json c)) ''title'' = Str a
          \<and> field (own_props (of_json c)) ''content'' = Str b \<longrightarrow>
            importPrompts P now w (Document d)
              = (w, \<lparr>success = True, imported = 0,
                     message = ''No new prompts to import (duplicates were skipped)''\<rparr>))
    \<and> (truthy (field (own_props (of_json c)) ''id'')
        \<and> truthy (field (own_props (of_json c)) ''title'')
        \<and> truthy (field (own_props (of_json c)) ''content'')
        \<and> (\<forall>p \<in> set ps. \<not> (strict_eq (field p ''title'') (field (own_props (of_json c)) ''title'')
                         \<and> strict_eq (field p ''content'') (field (own_props (of_json c)) ''content'')))
        \<and> map (\<lambda>p. field p ''order'') ps = map (\<lambda>n. Num (Fin n)) ns
        \<and> (\<forall>n \<in> set ns. \<bar>n\<bar> < 9007199254740992) \<longrightarrow>
          (\<exists>w' ps' q.
             importPrompts P now w (Document d)
               = (w', \<lparr>success = True, imported = 1, message = ''Successfully imported 1 prompt''\<rparr>)
             \<and> getPrompts P now' w' = Inr (ps' @ [q])
             \<and> ids_of ps' = ids_of ps
             \<and> field q ''order'' = Num (Fin (Max (set ns) + 1))
             \<and> field q ''id'' = field (own_props (of_json c)) ''id''
             \<and> field q ''title'' = field (own_props (of_json c)) ''title''
             \<and> field q ''content'' = field (own_props (of_json c)) ''content''))"
proof (intro conjI impI)
  let ?v = "of_json c"
  assume dup: "field (own_props ?v) ''title'' = Str a \<and> field (own_props ?v) ''content'' = Str b"
  then have "\<not> (?v = Undefined \<or> ?v = Null)"
    using field_own_props_nullish [of ?v "''title''"] by auto
  moreover have "list_ex (\<lambda>existing. strict_eq (field existing ''title'') (Str a)
                    \<and> strict_eq (field existing ''content'') (Str b)) ps"
    using assms(2,3,4) by (auto simp: list_ex_iff intro!: bexI [of _ e])
  ultimately have "is_new_prompt ps ?v = Inr False"
    using dup by (simp add: is_new_prompt_def get_prop_eq)
  then have "import_try P now w (Document d) = Inr (w, 0)"
    using assms(1,5) by (simp add: import_try_def)
  then show "importPrompts P now w (Document d)
      = (w, \<lparr>success = True, imported = 0,
             message = ''No new prompts to import (duplicates were skipped)''\<rparr>)"
    by (simp add: importPrompts_def)
next
  let ?v = "of_json c"
  let ?D = "engine_date P w"
  assume new: "truthy (field (own_props ?v) ''id'')
        \<and> truthy (field (own_props ?v) ''title'')
        \<and> truthy (field (own_props ?v) ''content'')
        \<and> (\<forall>p \<in> set ps. \<not> (strict_eq (field p ''title'') (field (own_props ?v) ''title'')
                         \<and> strict_eq (field p ''content'') (field (own_props ?v) ''content'')))
        \<and> map (\<lambda>p. field p ''order'') ps = map (\<lambda>n. Num (Fin n)) ns
        \<and> (\<forall>n \<in> set ns. \<bar>n\<bar> < 9007199254740992)"
  then have nn: "\<not> (?v = Undefined \<or> ?v = Null)"
    using field_own_props_nullish [of ?v "''id''"] by auto
  have "\<not> list_ex (\<lambda>existing. strict_eq (field existing ''title'') (field (own_props ?v) ''title'')
                    \<and> strict_eq (field existing ''content'') (field (own_props ?v) ''content'')) ps"
    using new by (simp add: list_ex_iff)
  then have "is_new_prompt ps ?v = Inr True"
    using new nn by (simp add: is_new_prompt_def get_prop_eq)
  then have filt: "filter_err (is_new_prompt ps) [?v] = Inr [?v]" by simp
  have ne: "ps \<noteq> []" using assms(2) by auto
  then have ns: "ns \<noteq> []" using new by auto
  let ?m = "Max (set ns)"
  have mo: "max_order P ps = Inr (Fin ?m)"
    using new ne by (simp add: max_order_Fin)
  have "?m \<in> set ns" using ns by simp
  then have "\<bar>?m\<bar> < 9007199254740992" using new by blast
  then have "\<bar>?m + 1\<bar> \<le> 9007199254740992" by linarith
  then have ord: "num_add P (num_add P (Fin ?m) (Fin 1)) (Fin (int 0)) = Fin (?m + 1)"
    by simp
  let ?q0 = "prepare_import P now (Fin ?m) 0 ?v"
  have add: "promptsToAdd P now (Fin ?m) [?v] = [?q0]"
    by (simp add: promptsToAdd_def)
  obtain w' where w': "savePrompts P now w (ps @ [?q0]) = Inr w'"
    using getPrompts_writable [OF assms(1)] savePrompts_writable by blast
  have it: "import_try P now w (Document d) = Inr (w', 1)"
    using assms(1,5) filt mo add w' by (simp add: import_try_def)
  have res: "importPrompts P now w (Document d)
      = (w', \<lparr>success = True, imported = 1, message = ''Successfully imported 1 prompt''\<rparr>)"
    using it by (simp add: importPrompts_def dec.simps [of "Suc 0"])
  obtain ps' where ps': "map_err (reload_record P now now' ?D) ps = Inr ps'"
    and rel: "list_all2 (\<lambda>p q. reload_record P now now' ?D p = Inr q) ps ps'"
    using reload_all_total by blast
  obtain q where q: "reload_record P now now' ?D ?q0 = Inr q"
    using reload_record_total by blast
  have l: "getPrompts P now' w' = Inr (ps' @ [q])"
    using ps' q by (simp add: getPrompts_after_save [OF w'] map_err_append)
  have ids: "ids_of ps' = ids_of ps"
    using rel getPrompts_shape [OF assms(1)] by (rule ids_of_reloaded)
  have j: "is_json (field (own_props ?v) k)" if "truthy (field (own_props ?v) k)" for k
    using field_json [OF is_json_of_json, of c k] that by auto
  have "field q ''order'' = Num (Fin (?m + 1))"
    using reload_record_json_field [OF q, of "''order''"] ord
    by (simp add: prepare_import_fields)
  moreover have "field q ''id'' = field (own_props ?v) ''id''"
    using reload_record_json_field [OF q, of "''id''"] new j
    by (simp add: prepare_import_fields)
  moreover have "field q ''title'' = field (own_props ?v) ''title''"
    using reload_record_json_field [OF q, of "''title''"] new j
    by (simp add: prepare_import_fields)
  moreover have "field q ''content'' = field (own_props ?v) ''content''"
    using reload_record_json_field [OF q, of "''content''"] new j
    by (simp add: prepare_import_fields)
  ultimately show "\<exists>w' ps' q.
             importPrompts P now w (Document d)
               = (w', \<lparr>success = True, imported = 1, message = ''Successfully imported 1 prompt''\<rparr>)
             \<and> getPrompts P now' w' = Inr (ps' @ [q])
             \<and> ids_of ps' = ids_of ps
             \<and> field q ''order'' = Num (Fin (Max (set ns) + 1))
             \<and> field q ''id'' = field (own_props (of_json c)) ''id''
             \<and> field q ''title'' = field (own_props (of_json c)) ''title''
             \<and> field q ''content'' = field (own_props (of_json c)) ''content''"
    using res l ids by blast
qed

theorem import_dedup_witness:
  "importPrompts example_platform 5 example_world (Document (example_document example_duplicate))
     = (example_world, \<lparr>success = True, imported = 0,
                         message = ''No new prompts to import (duplicates were skipped)''\<rparr>)
   \<and> (\<exists>w' ps' q.
        importPrompts example_platform 5 example_world (Document (example_document example_new))
          = (w', \<lparr>success = True, imported = 1, message = ''Successfully imported 1 prompt''\<rparr>)
        \<and> getPrompts example_platform 7 w' = Inr (ps' @ [q])
        \<and> ids_of ps' = [Str ''p1'', Str ''p2'']
        \<and> field q ''order'' = Num (Fin 2)
        \<and> field q ''id'' = Str ''x2'')"
proof -
  have l: "getPrompts example_platform 5 example_world = Inr [example_record1, example_record2]"
    by (rule example_world_list)
  have e: "example_record1 \<in> set [example_record1, example_record2]"
    "field example_record1 ''title'' = Str ''A''" "field example_record1 ''content'' = Str ''B''"
    by (simp_all add: field_def example_record1_def)
  have d: "get_prop (of_json (example_document c)) ''prompts'' = Inr (Arr [of_json c])" for c
    by (simp add: example_document_def field_def)
  have dup: "field (own_props (of_json example_duplicate)) ''title'' = Str ''A''
      \<and> field (own_props (of_json example_duplicate)) ''content'' = Str ''B''"
    by (simp add: example_duplicate_def field_def)
  have new: "truthy (field (own_props (of_json example_new)) ''id'')
        \<and> truthy (field (own_props (of_json example_new)) ''title'')
        \<and> truthy (field (own_props (of_json example_new)) ''content'')
        \<and> (\<forall>p \<in> set [example_record1, example_record2].
              \<not> (strict_eq (field p ''title'') (field (own_props (of_json example_new)) ''title'')
                 \<and> strict_eq (field p ''content'') (field (own_props (of_json example_new)) ''content'')))
        \<and> map (\<lambda>p. field p ''order'') [example_record1, example_record2]
            = map (\<lambda>n. Num (Fin n)) [0, 1]
        \<and> (\<forall>n \<in> set [0, 1 :: int]. \<bar>n\<bar> < 9007199254740992)"
    by (simp add: example_new_def field_def example_record1_def example_record2_def)
  have ids: "ids_of [example_record1, example_record2] = [Str ''p1'', Str ''p2'']"
    by (simp add: ids_of_def field_def example_record1_def example_record2_def)
  have f: "field (own_props (of_json example_new)) ''id'' = Str ''x2''"
    by (simp add: example_new_def field_def)
  have m: "Max (set [0, 1 :: int]) + 1 = 2" by simp
  from import_dedup [OF l e d, where c = example_duplicate] dup
  have "importPrompts example_platform 5 example_world (Document (example_document example_duplicate))
     = (example_world, \<lparr>success = True, imported = 0,
                         message = ''No new prompts to import (duplicates were skipped)''\<rparr>)"
    by blast
  moreover
  from import_dedup [OF l e d, where c = example_new and ns = "[0, 1]" and now' = 7] new
  have "\<exists>w' ps' q.
        importPrompts example_platform 5 example_world (Document (example_document example_new))
          = (w', \<lparr>success = True, imported = 1, message = ''Successfully imported 1 prompt''\<rparr>)
        \<and> getPrompts example_platform 7 w' = Inr (ps' @ [q])
        \<and> ids_of ps' = ids_of [example_record1, example_record2]
        \<and> field q ''order'' = Num (Fin (Max (set [0, 1]) + 1))
        \<and> field q ''id'' = field (own_props (of_json example_new)) ''id''"
    by blast
  ultimately show ?thesis unfolding ids f m by blast
qed

subsection \<open>What a write leaves in the store\<close>

lemma to_json_Obj_lookup:
  "to_json D (Obj ps) = JObj qs \<Longrightarrow>
   map_of qs k = (if map_of ps k = Some Undefined then None else map_option (to_json D) (map_of ps k))"
  by (auto simp: map_of_map_props map_of_filter_keys [where Q = "\<lambda>k. map_of ps k \<noteq> Some Undefined"])

lemma serialized_record_canonical:
  "canonical_record P (to_json D (Obj (serialize_record P now p)))"
proof -
  let ?s = "serialize_record P now p"
  obtain qs where qs: "to_json D (Obj ?s) = JObj qs" by simp
  have "map_of ?s ''createdAt'' = Some (Str (dateToISOString P now (field p ''createdAt'')))"
    "map_of ?s ''updatedAt'' = Some (Str (dateToISOString P now (field p ''updatedAt'')))"
    by (simp_all add: serialize_record_def map_of_set_prop)
  then have "map_of qs ''createdAt'' = Some (JStr (dateToISOString P now (field p ''createdAt'')))"
    "map_of qs ''updatedAt'' = Some (JStr (dateToISOString P now (field p ''updatedAt'')))"
    using to_json_Obj_lookup [OF qs] by simp_all
  then have "iso_string P (map_of qs ''createdAt'')" "iso_string P (map_of qs ''updatedAt'')"
    by (auto simp: iso_string_def dateToISOString_def)
  then show ?thesis unfolding qs by (simp add: canonical_record_def)
qed

lemma serialized_canonical:
  "\<exists>xs. to_json D (serializedPrompts P now ps) = JArr xs \<and> list_all (canonical_record P) xs"
  by (simp add: serializedPrompts_def list_all_iff serialized_record_canonical
      del: to_json.simps(8))

lemma save_canonical:
  assumes "savePrompts P now w ps = Inr w'" and "canonical_world P w"
  shows "canonical_world P w'"
proof -
  obtain xs ys where
    "to_json chrome_date (serializedPrompts P now ps) = JArr xs" "list_all (canonical_record P) xs"
    "to_json (json_date P) (serializedPrompts P now ps) = JArr ys" "list_all (canonical_record P) ys"
    using serialized_canonical by metis
  then show ?thesis
    using assms
    by (auto simp: savePrompts_result canonical_world_def canonical_item_def split: if_splits)
qed

lemma import_try_effect:
  assumes "import_try P now w f = Inr (w', n)"
  shows "w' = w \<or> (\<exists>ps. savePrompts P now w ps = Inr w')"
  using assms
  by (auto simp: import_try_def split: import_file.splits sum.splits jsval.splits if_splits)

lemma apply_op_effect:
  "apply_op P w (now, x) = w \<or> (\<exists>ps. savePrompts P now w ps = Inr (apply_op P w (now, x)))"
proof (cases x)
  case (Create p)
  then show ?thesis
    by (auto simp: world_after_def addPrompt_def split: sum.splits)
next
  case (Update p)
  then show ?thesis
    by (auto simp: world_after_def updatePrompt_def split: sum.splits option.splits)
next
  case (Delete i)
  then show ?thesis
    by (auto simp: world_after_def deletePrompt_def split: sum.splits)
next
  case (Reorder ps)
  then show ?thesis
    by (auto simp: world_after_def reorderPrompts_def split: sum.splits)
next
  case (Import f)
  show ?thesis
  proof (cases "import_try P now w f")
    case (Inl e)
    then show ?thesis using Import by (simp add: importPrompts_def)
  next
    case (Inr r)
    then obtain w' n where "import_try P now w f = Inr (w', n)" by (cases r) auto
    then show ?thesis using Import import_try_effect [of P now w f w' n]
      by (auto simp: importPrompts_def)
  qed
qed

lemma apply_op_canonical:
  assumes "canonical_world P w"
  shows "canonical_world P (apply_op P w x)"
proof -
  obtain now y where "x = (now, y)" by (cases x)
  then show ?thesis
    using apply_op_effect [of P w now y] assms save_canonical by metis
qed

section \<open>The stored form of the timestamps\<close>

text \<open>
  Claim C8.  Whatever \<^verbatim>\<open>savePrompts\<close> writes is an array of records whose
  \<^verbatim>\<open>createdAt\<close> and \<^verbatim>\<open>updatedAt\<close> are ISO strings.  Create, update, delete, reorder and
  import write through \<^verbatim>\<open>savePrompts\<close> only, so a store whose records have ISO-string
  timestamps (an empty store, for one) stays so under every sequence of these operations.
\<close>

theorem timestamps_canonical:
  "(canonical_world P w \<longrightarrow> canonical_world P (run_ops P w ops))
   \<and> (savePrompts P now w ps = Inr w' \<longrightarrow>
        (if chrome_present w \<and> \<not> chrome_fails w
         then \<exists>xs. chrome_item w' = Some (JArr xs) \<and> list_all (canonical_record P) xs
         else \<exists>xs. local_item w' = Text (JArr xs) \<and> list_all (canonical_record P) xs))"
proof
  have "canonical_world P w \<Longrightarrow> canonical_world P (foldl (apply_op P) w ops)"
    by (induction ops arbitrary: w) (simp_all add: apply_op_canonical)
  then show "canonical_world P w \<longrightarrow> canonical_world P (run_ops P w ops)"
    by (simp add: run_ops_def)
next
  obtain xs ys where
    "to_json chrome_date (serializedPrompts P now ps) = JArr xs" "list_all (canonical_record P) xs"
    "to_json (json_date P) (serializedPrompts P now ps) = JArr ys" "list_all (canonical_record P) ys"
    using serialized_canonical by metis
  then show "savePrompts P now w ps = Inr w' \<longrightarrow>
        (if chrome_present w \<and> \<not> chrome_fails w
         then \<exists>xs. chrome_item w' = Some (JArr xs) \<and> list_all (canonical_record P) xs
         else \<exists>xs. local_item w' = Text (JArr xs) \<and> list_all (canonical_record P) xs)"
    by (auto simp: savePrompts_result split: if_splits)
qed

theorem timestamps_canonical_witness:
  "canonical_world example_platform example_world
   \<and> canonical_world example_platform
       (run_ops example_platform example_world
          [(5, Create (prompt_obj example_prompt)), (6, Delete ''p1''),
           (7, Import (Document (example_document example_new)))])"
proof -
  have "''1970-01-01T00:00:00.000Z'' = toISOString example_platform 0"
    "''2023-11-14T22:13:20.000Z'' = toISOString example_platform 1700000000000"
    by (simp_all add: example_platform_def)
  then have "canonical_world example_platform example_world"
    unfolding canonical_world_def canonical_item_def canonical_record_def iso_string_def
      example_world_def example_json1_def example_json2_def
    by (simp del: One_nat_def) blast
  with timestamps_canonical [of example_platform example_world] show ?thesis by blast
qed

subsection \<open>The ids of a collection\<close>

lemma strict_eq_sym: "strict_eq a b = strict_eq b a"
  by (cases a; cases b) auto

lemma strict_eq_same: "strict_eq a b \<Longrightarrow> a = b"
  by (cases a) auto

lemma distinct_under_append:
  "distinct_under (xs @ ys) \<longleftrightarrow>
     distinct_under xs \<and> distinct_under ys \<and> (\<forall>x \<in> set xs. \<forall>y \<in> set ys. \<not> strict_eq x y)"
  by (induction xs) (auto simp: list_ex_iff)

lemma distinct_under_filter:
  "distinct_under (map g xs) \<Longrightarrow> distinct_under (map g (filter Q xs))"
  by (induction xs) (auto simp: list_ex_iff)

lemma find_index_from_Some:
  "find_index_from i f xs = Some k \<Longrightarrow> i \<le> k \<and> k - i < length xs \<and> f (xs ! (k - i))"
proof (induction xs arbitrary: i)
  case Nil
  then show ?case by simp
next
  case (Cons x xs)
  show ?case
  proof (cases "f x")
    case True
    then show ?thesis using Cons.prems by simp
  next
    case False
    then have "find_index_from (Suc i) f xs = Some k" using Cons.prems by simp
    then have "Suc i \<le> k \<and> k - Suc i < length xs \<and> f (xs ! (k - Suc i))"
      by (rule Cons.IH)
    moreover from this have "k - i = Suc (k - Suc i)" by arith
    ultimately show ?thesis by auto
  qed
qed

lemma find_index_Some: "find_index f xs = Some k \<Longrightarrow> k < length xs \<and> f (xs ! k)"
  using find_index_from_Some [of 0 f xs k] by (simp add: find_index_def)

lemma filter_err_Inr:
  "filter_err f xs = Inr ys \<Longrightarrow> set ys \<subseteq> set xs \<and> (\<forall>y \<in> set ys. f y = Inr True)"
proof (induction xs arbitrary: ys)
  case Nil
  then show ?case by simp
next
  case (Cons x xs)
  then show ?case by (fastforce split: sum.splits if_splits)
qed

lemma map_enumerate_snd: "map (\<lambda>(i, x). g x) (enumerate n xs) = map g xs"
  by (induction xs arbitrary: n) auto

lemma ids_of_with_order: "ids_of (with_order ps) = ids_of ps"
proof -
  have "(\<lambda>(i, p). field (set_prop ''order'' (Num (Fin (int i))) p) ''id'')
        = (\<lambda>(i, p). field p ''id'')"
    by (simp add: field_set_prop)
  then show ?thesis
    by (simp add: ids_of_def with_order_def comp_def case_prod_unfold map_enumerate_snd
        [where g = "\<lambda>p. field p ''id''", unfolded case_prod_unfold])
qed

lemma record_shape_stable_id: "record_shape p \<Longrightarrow> stable_id p"
  using record_shape_field [of p "''id''"] by (simp add: stable_id_def)

lemma reload_record_id:
  assumes "reload_record P now now' D p = Inr q" and "stable_id p"
  shows "field q ''id'' = field p ''id''"
proof -
  obtain p' where p': "reload_record P now now' D p = Inr p'"
    and every: "\<forall>k. k \<noteq> ''createdAt'' \<longrightarrow> k \<noteq> ''updatedAt'' \<longrightarrow>
              field p' k = (if field p k = Undefined then Undefined
                            else of_json (to_json D (field p k)))"
    using reload_record_fields [of P now now' D p] by (elim exE conjE)
  from every have f: "field p' ''id'' = (if field p ''id'' = Undefined then Undefined
                               else of_json (to_json D (field p ''id'')))"
    by simp
  from p' assms(1) have "p' = q" by simp
  moreover have "field p ''id'' = Undefined \<or> of_json (to_json D (field p ''id'')) = field p ''id''"
    using assms(2) of_json_to_json by (auto simp: stable_id_def)
  ultimately show ?thesis using f by auto
qed

lemma stored_ids_after_save:
  assumes "savePrompts P now w ps = Inr w'" and "\<And>p. p \<in> set ps \<Longrightarrow> stable_id p"
  shows "stored_ids P now' w' = ids_of ps"
proof -
  obtain qs where qs: "map_err (reload_record P now now' (engine_date P w)) ps = Inr qs"
    and rel: "list_all2 (\<lambda>p q. reload_record P now now' (engine_date P w) p = Inr q) ps qs"
    using reload_all_total by blast
  from rel assms(2) have "ids_of qs = ids_of ps"
    by (induction ps qs rule: list_all2_induct) (auto simp: ids_of_def reload_record_id)
  then show ?thesis
    using qs by (simp add: stored_ids_def getPrompts_after_save [OF assms(1)])
qed

subsection \<open>The ids do not depend on the clock\<close>

lemma restore_record_clock:
  "map_sum (\<lambda>e. e) (\<lambda>p. field p ''id'') (restore_record P now v)
   = map_sum (\<lambda>e. e) (\<lambda>p. field p ''id'') (restore_record P now' v)"
  using restore_record_cases [of P now v] restore_record_cases [of P now' v]
  by (auto simp: restore_record_Obj field_set_prop)

lemma map_err_clock:
  assumes "\<And>x. map_sum (\<lambda>e. e) g (f x) = map_sum (\<lambda>e. e) g (f' x)"
  shows "map_sum (\<lambda>e. e) (map g) (map_err f xs) = map_sum (\<lambda>e. e) (map g) (map_err f' xs)"
proof (induction xs)
  case Nil
  then show ?case by simp
next
  case (Cons x xs)
  show ?case
    using assms [of x] Cons.IH
    by (cases "f x"; cases "f' x"; cases "map_err f xs"; cases "map_err f' xs") auto
qed

lemma restore_all_clock:
  "map_sum (\<lambda>e. e) ids_of (restore_all P now v) = map_sum (\<lambda>e. e) ids_of (restore_all P now' v)"
proof (cases v)
  case (Arr xs)
  then show ?thesis
    using map_err_clock [of "\<lambda>p. field p ''id''" "restore_record P now" "restore_record P now'" xs]
      restore_record_clock
    by (simp add: restore_all_def ids_of_def [abs_def])
qed (simp_all add: restore_all_def)

lemma stored_ids_clock: "stored_ids P now w = stored_ids P now' w"
proof -
  have c: "map_sum (\<lambda>e. e) ids_of (getPrompts_catch P now w)
           = map_sum (\<lambda>e. e) ids_of (getPrompts_catch P now' w)"
    using restore_all_clock [of P now _ now']
    by (auto simp: getPrompts_catch_def split: sum.splits)
  have t: "map_sum (\<lambda>e. e) ids_of (getPrompts_try P now w)
           = map_sum (\<lambda>e. e) ids_of (getPrompts_try P now' w)"
    using restore_all_clock [of P now _ now']
    by (auto simp: getPrompts_try_def split: sum.splits)
  have "map_sum (\<lambda>e. e) ids_of (getPrompts P now w)
        = map_sum (\<lambda>e. e) ids_of (getPrompts P now' w)"
    using c t
    by (cases "getPrompts_try P now w"; cases "getPrompts_try P now' w")
      (auto simp: getPrompts_def)
  then show ?thesis
    by (cases "getPrompts P now w"; cases "getPrompts P now' w") (auto simp: stored_ids_def)
qed

subsection \<open>Each operation and the ids\<close>

lemma ids_unchanged:
  "distinct_under (stored_ids P now0 w) \<Longrightarrow> distinct_under (stored_ids P now1 w)"
  using stored_ids_clock [of P now0 w now1] by simp

lemma getPrompts_stored_ids: "getPrompts P now w = Inr ps \<Longrightarrow> stored_ids P now' w = ids_of ps"
  using stored_ids_clock [of P now' w now] by (simp add: stored_ids_def)

lemma getPrompts_stable:
  "getPrompts P now w = Inr ps \<Longrightarrow> p \<in> set ps \<Longrightarrow> stable_id p"
  by (auto dest: getPrompts_shape intro: record_shape_stable_id)

lemma create_ids:
  assumes "distinct_under (stored_ids P now0 w)" and "admissible P w (now, Create p)"
  shows "distinct_under (stored_ids P now1 (apply_op P w (now, Create p)))"
proof (cases "addPrompt P now w p")
  case (Inl e)
  then show ?thesis using assms(1) by (simp add: world_after_def ids_unchanged)
next
  case (Inr w')
  then obtain ps where ps: "getPrompts P now w = Inr ps"
    and w': "savePrompts P now w (ps @ [p]) = Inr w'"
    by (auto simp: addPrompt_def split: sum.splits)
  obtain i where i: "field p ''id'' = Str i"
    and fresh: "\<not> list_ex (strict_eq (Str i)) (stored_ids P now w)"
    using assms(2) by (auto split: jsval.splits)
  have "stable_id p" using i by (simp add: stable_id_def)
  then have "stored_ids P now1 w' = ids_of (ps @ [p])"
    using getPrompts_stable [OF ps] by (intro stored_ids_after_save [OF w']) auto
  moreover have "distinct_under (ids_of ps)"
    using assms(1) getPrompts_stored_ids [OF ps, of now0] by simp
  moreover have "\<forall>x \<in> set (ids_of ps). \<not> strict_eq x (Str i)"
    using fresh getPrompts_stored_ids [OF ps, of now]
    by (auto simp: list_ex_iff strict_eq_sym [of _ "Str i"])
  ultimately show ?thesis
    using Inr i by (simp add: world_after_def ids_of_def distinct_under_append)
qed

lemma update_ids:
  assumes "distinct_under (stored_ids P now0 w)"
  shows "distinct_under (stored_ids P now1 (apply_op P w (now, Update p)))"
proof (cases "updatePrompt P now w p")
  case (Inl e)
  then show ?thesis using assms by (simp add: world_after_def ids_unchanged)
next
  case (Inr w')
  then obtain ps where ps: "getPrompts P now w = Inr ps"
    by (auto simp: updatePrompt_def split: sum.splits)
  show ?thesis
  proof (cases "find_index (\<lambda>q. strict_eq (field q ''id'') (field p ''id'')) ps")
    case None
    then have "w' = w" using Inr ps by (simp add: updatePrompt_def)
    then show ?thesis using Inr assms by (simp add: world_after_def ids_unchanged)
  next
    case (Some k)
    then have w': "savePrompts P now w (ps[k := p]) = Inr w'"
      using Inr ps by (simp add: updatePrompt_def)
    from Some have k: "k < length ps" "strict_eq (field (ps ! k) ''id'') (field p ''id'')"
      using find_index_Some [of _ ps k] by auto
    then have same: "field p ''id'' = field (ps ! k) ''id''"
      by (auto dest: strict_eq_same)
    have "stable_id (ps ! k)" using getPrompts_stable [OF ps] k(1) by simp
    then have "stable_id p" using same by (simp add: stable_id_def)
    then have "\<And>q. q \<in> set (ps[k := p]) \<Longrightarrow> stable_id q"
      using getPrompts_stable [OF ps] by (auto dest!: set_update_subset_insert [THEN subsetD])
    then have "stored_ids P now1 w' = ids_of (ps[k := p])"
      by (rule stored_ids_after_save [OF w'])
    moreover have "ids_of (ps[k := p]) = ids_of ps"
      using same k(1) by (simp add: ids_of_def map_update list_update_same_conv)
    moreover have "distinct_under (ids_of ps)"
      using assms getPrompts_stored_ids [OF ps, of now0] by simp
    ultimately show ?thesis using Inr by (simp add: world_after_def)
  qed
qed

lemma delete_ids:
  assumes "distinct_under (stored_ids P now0 w)"
  shows "distinct_under (stored_ids P now1 (apply_op P w (now, Delete i)))"
proof (cases "deletePrompt P now w i")
  case (Inl e)
  then show ?thesis using assms by (simp add: world_after_def ids_unchanged)
next
  case (Inr w')
  let ?keep = "\<lambda>q. \<not> strict_eq (field q ''id'') (Str i)"
  from Inr obtain ps where ps: "getPrompts P now w = Inr ps"
    and w': "savePrompts P now w (filter ?keep ps) = Inr w'"
    by (auto simp: deletePrompt_def split: sum.splits)
  have "stored_ids P now1 w' = ids_of (filter ?keep ps)"
    using getPrompts_stable [OF ps] by (intro stored_ids_after_save [OF w']) auto
  moreover have "distinct_under (ids_of ps)"
    using assms getPrompts_stored_ids [OF ps, of now0] by simp
  then have "distinct_under (ids_of (filter ?keep ps))"
    unfolding ids_of_def by (rule distinct_under_filter)
  ultimately show ?thesis using Inr by (simp add: world_after_def)
qed

lemma reorder_ids:
  assumes "distinct_under (stored_ids P now0 w)" and "admissible P w (now, Reorder ps)"
  shows "distinct_under (stored_ids P now1 (apply_op P w (now, Reorder ps)))"
proof (cases "reorderPrompts P now w ps")
  case (Inl e)
  then show ?thesis using assms(1) by (simp add: world_after_def ids_unchanged)
next
  case (Inr w')
  then have w': "savePrompts P now w (with_order ps) = Inr w'"
    by (simp add: reorderPrompts_def)
  have "stable_id q" if "q \<in> set (with_order ps)" for q
  proof -
    from that obtain i where "i < length ps" "q = with_order ps ! i"
      by (auto simp: in_set_conv_nth length_with_order)
    then have "field q ''id'' = field (ps ! i) ''id''" "record_shape (ps ! i)"
      using assms(2) by (simp_all add: with_order_nth field_set_prop list_all_iff)
    then show ?thesis
      using record_shape_stable_id [of "ps ! i"] by (simp add: stable_id_def)
  qed
  then have "stored_ids P now1 w' = ids_of (with_order ps)"
    by (rule stored_ids_after_save [OF w'])
  then show ?thesis
    using Inr assms(2) by (simp add: world_after_def ids_of_with_order distinct_ids_def)
qed

lemma candidates_json:
  assumes "get_prop (of_json d) ''prompts'' = Inr (Arr cs)" and "c \<in> set cs"
  shows "is_json c"
proof -
  have "field (own_props (of_json d)) ''prompts'' = Arr cs"
    using assms(1) by (simp add: get_prop_eq split: if_splits)
  then have "is_json (Arr cs)"
    using field_json [OF is_json_of_json, of d "''prompts''"] by auto
  then show ?thesis using assms(2) by (simp add: list_all_iff)
qed

lemma is_new_prompt_id:
  assumes "is_new_prompt ps c = Inr True"
  shows "truthy (field (own_props c) ''id'')"
  using assms by (auto simp: is_new_prompt_def get_prop_eq split: if_splits)

lemma ids_of_promptsToAdd:
  assumes "\<And>c. c \<in> set cs \<Longrightarrow> truthy (field (own_props c) ''id'')"
  shows "ids_of (promptsToAdd P now m cs) = map (\<lambda>c. field (own_props c) ''id'') cs"
proof -
  have "length (promptsToAdd P now m cs) = length cs"
    by (simp add: promptsToAdd_def)
  moreover have "field (promptsToAdd P now m cs ! i) ''id'' = field (own_props (cs ! i)) ''id''"
    if "i < length cs" for i
    using that assms [of "cs ! i"]
    by (simp add: promptsToAdd_def nth_enumerate_eq prepare_import_fields)
  ultimately show ?thesis
    by (simp add: ids_of_def list_eq_iff_nth_eq)
qed

lemma import_ids_step:
  assumes "distinct_under (stored_ids P now0 w)" and "admissible P w (now, Import f)"
  shows "distinct_under (stored_ids P now1 (apply_op P w (now, Import f)))"
proof (cases "import_try P now w f")
  case (Inl e)
  then show ?thesis using assms(1) by (simp add: importPrompts_def ids_unchanged)
next
  case (Inr r)
  then obtain w' n where r: "import_try P now w f = Inr (w', n)" by (cases r) auto
  then have after: "apply_op P w (now, Import f) = w'" by (simp add: importPrompts_def)
  from r obtain d cs ps news where f: "f = Document d"
    and cs: "get_prop (of_json d) ''prompts'' = Inr (Arr cs)"
    and ps: "getPrompts P now w = Inr ps"
    and news: "filter_err (is_new_prompt ps) cs = Inr news"
    by (auto simp: import_try_def split: import_file.splits sum.splits jsval.splits)
  show ?thesis
  proof (cases "news = []")
    case True
    then have "w' = w" using r f cs ps news by (simp add: import_try_def)
    then show ?thesis using after assms(1) by (simp add: ids_unchanged)
  next
    case False
    then obtain m where w': "savePrompts P now w (ps @ promptsToAdd P now m news) = Inr w'"
      using r f cs ps news by (auto simp: import_try_def split: sum.splits)
    have sub: "set news \<subseteq> set cs" and new: "\<forall>c \<in> set news. is_new_prompt ps c = Inr True"
      using filter_err_Inr [OF news] by auto
    have tr: "truthy (field (own_props c) ''id'')" if "c \<in> set news" for c
      using new that by (auto intro: is_new_prompt_id)
    have ids: "ids_of (promptsToAdd P now m news) = map (\<lambda>c. field (own_props c) ''id'') news"
      using tr by (rule ids_of_promptsToAdd)
    have "stable_id q" if "q \<in> set (promptsToAdd P now m news)" for q
    proof -
      have "field q ''id'' \<in> set (ids_of (promptsToAdd P now m news))"
        using that by (auto simp: ids_of_def)
      then obtain c where c: "c \<in> set news" "field q ''id'' = field (own_props c) ''id''"
        unfolding ids by auto
      then have "is_json c" using sub candidates_json [OF cs] by blast
      then show ?thesis
        using field_json [of c "''id''"] c by (auto simp: stable_id_def)
    qed
    then have "stored_ids P now1 w' = ids_of (ps @ promptsToAdd P now m news)"
      using getPrompts_stable [OF ps] by (intro stored_ids_after_save [OF w']) auto
    moreover have "new_candidates P now w f = news"
      using f cs ps news by (simp add: new_candidates_def)
    then have "distinct_under (ids_of ps @ map (\<lambda>c. field (own_props c) ''id'') news)"
      using assms(2) getPrompts_stored_ids [OF ps, of now] by (simp add: import_ids_def)
    ultimately show ?thesis using after ids by (simp add: ids_of_def)
  qed
qed

lemma apply_op_ids:
  assumes "distinct_under (stored_ids P now0 w)" and "admissible P w x"
  shows "distinct_under (stored_ids P now1 (apply_op P w x))"
proof -
  obtain now y where x: "x = (now, y)" by (cases x)
  show ?thesis
  proof (cases y)
    case (Create p)
    show ?thesis
      using assms(1) assms(2) [unfolded x Create] unfolding x Create by (rule create_ids)
  next
    case (Update p)
    show ?thesis using assms(1) unfolding x Update by (rule update_ids)
  next
    case (Delete i)
    show ?thesis using assms(1) unfolding x Delete by (rule delete_ids)
  next
    case (Reorder ps)
    show ?thesis
      using assms(1) assms(2) [unfolded x Reorder] unfolding x Reorder by (rule reorder_ids)
  next
    case (Import f)
    show ?thesis
      using assms(1) assms(2) [unfolded x Import] unfolding x Import by (rule import_ids_step)
  qed
qed

section \<open>Uniqueness of the ids\<close>

text \<open>
  Claim C2, as the code has it.  Starting from a collection with pairwise distinct ids,
  the ids of the stored collection stay pairwise distinct under every sequence of
  admissible operations: creates with a fresh string id, updates, deletes, reorders of
  well-formed records with pairwise distinct ids, and imports that add no candidate whose
  id is that of a stored record or of another candidate added.  \<^verbatim>\<open>importPrompts\<close> itself
  compares titles and contents, never ids.
\<close>

theorem ids_stay_distinct:
  assumes "distinct_under (stored_ids P now0 w)" and "admissible_run P w ops"
  shows "distinct_under (stored_ids P now1 (run_ops P w ops))"
proof -
  have "distinct_under (stored_ids P now0 w) \<Longrightarrow> admissible_run P w ops \<Longrightarrow>
        distinct_under (stored_ids P now1 (foldl (apply_op P) w ops))"
  proof (induction ops arbitrary: w)
    case Nil
    then show ?case by (simp add: ids_unchanged)
  next
    case (Cons x xs)
    then have "distinct_under (stored_ids P now0 (apply_op P w x))"
      by (auto intro: apply_op_ids)
    with Cons show ?case by simp
  qed
  with assms show ?thesis by (simp add: run_ops_def)
qed

theorem ids_stay_distinct_witness:
  "admissible_run example_platform example_world
      [(5, Create (prompt_obj example_prompt)), (6, Delete ''p1''),
       (7, Import (Document (example_document example_new)))]
   \<and> distinct_under (stored_ids example_platform 9
        (run_ops example_platform example_world
           [(5, Create (prompt_obj example_prompt)), (6, Delete ''p1''),
            (7, Import (Document (example_document example_new)))]))"
proof -
  have a: "admissible_run example_platform example_world
      [(5, Create (prompt_obj example_prompt)), (6, Delete ''p1''),
       (7, Import (Document (example_document example_new)))]"
    by code_simp
  have d: "distinct_under (stored_ids example_platform 5 example_world)"
    by code_simp
  from ids_stay_distinct [OF d a, of 9] a show ?thesis by simp
qed

text \<open>Claim C2 as stated fails: importing a candidate that has the id of a stored record
  and a title of its own leaves two records with that id.\<close>

theorem import_duplicate_id_counterexample:
  "distinct_under (stored_ids example_platform 5 example_world)
   \<and> stored_ids example_platform 7
          (fst (importPrompts example_platform 5 example_world
                  (Document (example_document example_same_id))))
       = [Str ''p1'', Str ''p2'', Str ''p1'']
   \<and> \<not> distinct_under (stored_ids example_platform 7
          (fst (importPrompts example_platform 5 example_world
                  (Document (example_document example_same_id)))))"
  by code_simp

end
